theory Spec2Isabelle
  imports Main "HOL-Library.Word"
begin

section \<open>The network speed components of slstatus (components/netspeeds.c)\<close>

text \<open>
  The file has two platform variants of \<open>netspeed_rx\<close> and \<open>netspeed_tx\<close>, selected by
  the preprocessor: one for Linux, which reads a counter file under \<open>/sys/class/net\<close>, and
  one for OpenBSD and FreeBSD, which walks the list returned by \<open>getifaddrs\<close>. Both are
  embedded here; the BSD functions carry the suffix \<open>_bsd\<close>.

  Both variants keep the last counter in a function-local \<open>static uintmax_t\<close>: one
  variable in \<open>netspeed_rx\<close>, one in \<open>netspeed_tx\<close>. The two variables are the fields
  of the record \<open>statics\<close>, which every function takes and returns.
\<close>

subsection \<open>Data\<close>

type_synonym uintmax = "64 word"

text \<open>
  A counter read that the code hands to the operating system. The field \<open>reads\<close> of
  \<open>statics\<close> is a ghost log of these reads in the order they are made. No branch of the
  code looks at it; it is there so that "no counter read was attempted" can be stated.
\<close>

datatype counter_read = Sysfs_read string | Getifaddrs_read

record statics =
  rxbytes :: uintmax
  txbytes :: uintmax
  reads :: "counter_read list"

text \<open>Objects of static storage duration start at zero, and nothing has been read.\<close>

definition start :: statics where
  "start = \<lparr>rxbytes = 0, txbytes = 0, reads = []\<rparr>"

text \<open>
  \<open>(x - old) * 1000 / interval\<close> divides by an \<open>unsigned int\<close> taken from the
  configuration. Division by zero is undefined behaviour in C (the process is killed on
  the targets of this file); it is the one fault a call can raise.
\<close>

datatype fault = Division_by_zero

text \<open>A call returns a string or \<open>NULL\<close> (\<open>None\<close>), together with the statics.\<close>

type_synonym 'a call = "fault + ('a option \<times> statics)"

subsection \<open>Helpers of util.c\<close>

text \<open>
  Modelled from the spec: \<open>esnprintf\<close> of util.c, which is not among the sources. The
  spec lets a counter read fail when the path cannot be formatted; the helper is taken to
  fail (a negative result) when the formatted text and its terminating zero do not fit
  into the buffer of \<open>sz\<close> bytes, and to return the length of the text otherwise. The
  argument \<open>str\<close> is the format string with the interface name already substituted.
\<close>

definition esnprintf :: "nat \<Rightarrow> string \<Rightarrow> int" where
  "esnprintf sz str = (if length str < sz then int (length str) else - 1)"

text \<open>\<open>PATH_MAX\<close> of \<open>limits.h\<close> on Linux.\<close>

definition PATH_MAX :: nat where
  "PATH_MAX = 4096"

text \<open>
  What the operating system answers when a path is opened and scanned with the format
  \<open>%ju\<close>: the file cannot be opened or is empty, its text does not start with an unsigned
  number, or a number is scanned. The file system of one call is a function from paths
  to such answers.
\<close>

datatype scan = Unreadable | Unparsable | Scanned uintmax

type_synonym sysfs = "string \<Rightarrow> scan"

text \<open>
  Modelled from the spec: \<open>pscanf\<close> of util.c, which is not among the sources. It returns
  the number of values scanned (1 for the single \<open>%ju\<close>), 0 when the text cannot be parsed
  as an unsigned integer and -1 when the operating system cannot read the file. The
  variable behind the pointer argument is written only when a value is scanned, as the
  spec says: after a failed read the previous sample is untouched. The result is the
  return value paired with the content of the variable after the call.
\<close>

definition pscanf :: "sysfs \<Rightarrow> string \<Rightarrow> uintmax \<Rightarrow> int \<times> uintmax" where
  "pscanf fs path var =
     (case fs path of
        Unreadable \<Rightarrow> (- 1, var)
      | Unparsable \<Rightarrow> (0, var)
      | Scanned v \<Rightarrow> (1, v))"

subsection \<open>fmt_human\<close>

text \<open>
  Modelled from the spec: \<open>fmt_human\<close> of util.c (\<open>format_human\<close> in the spec), which is
  not among the sources. The spec: it "scales the byte rate into the largest unit such
  that the displayed magnitude is < base (1024 for binary units), choosing the unit
  suffix accordingly (B, K, M, G, ...), rendered with one decimal place", a pure function
  of the rate and the base. The spec's example renders 1050000 bytes per second as 1.0M,
  not as 0.0G, so the unit is the one reached by dividing by the base as long as the
  magnitude is not below it. The spec gives the rate no width: it is a natural number
  here, and the unit is its level (0 for B, 1 for K, 2 for M, 3 for G, and so on).

  \<open>prefix_index base num\<close> counts the divisions. A base below 2 scales nothing.
\<close>

function prefix_index :: "nat \<Rightarrow> nat \<Rightarrow> nat" where
  "prefix_index base num =
     (if 2 \<le> base \<and> base \<le> num then Suc (prefix_index base (num div base)) else 0)"
  by pat_completeness auto
termination
  by (relation "measure (\<lambda>(base, num). num)") auto

declare prefix_index.simps [simp del]

text \<open>
  The magnitude \<open>num / base ^ k\<close> in tenths. The spec does not say how the one decimal
  place is rounded; the digits after it are cut off here, which keeps the displayed
  magnitude below the base, as the spec asks.
\<close>

definition tenths :: "nat \<Rightarrow> nat \<Rightarrow> nat \<Rightarrow> nat" where
  "tenths base k num = 10 * num div base ^ k"

function show_nat :: "nat \<Rightarrow> string" where
  "show_nat n =
     (if n < 10 then [''0123456789'' ! n]
      else show_nat (n div 10) @ [''0123456789'' ! (n mod 10)])"
  by pat_completeness auto
termination
  by (relation "measure (\<lambda>n. n)") auto

declare show_nat.simps [simp del]

definition numeral_of :: "nat \<Rightarrow> nat \<Rightarrow> nat \<Rightarrow> string" where
  "numeral_of base k num =
     show_nat (tenths base k num div 10) @ ''.'' @ show_nat (tenths base k num mod 10)"

text \<open>
  Modelled from the spec: what \<open>fmt_human\<close> returns, the numeral with its one decimal
  place and the unit level that stands for the suffix.
\<close>

record human =
  numeral_text :: string
  unit_level :: nat

definition fmt_human :: "nat \<Rightarrow> nat \<Rightarrow> human" where
  "fmt_human num base =
     \<lparr>numeral_text = numeral_of base (prefix_index base num) num,
      unit_level = prefix_index base num\<rparr>"

subsection \<open>Linux: netspeed_rx and netspeed_tx\<close>

text \<open>
  The value of \<open>interval\<close> (an \<open>extern const unsigned int\<close> of the configuration) is a
  parameter. The arithmetic is that of \<open>uintmax_t\<close>: the difference and the product with
  1000 wrap modulo \<open>2 ^ 64\<close>, the division truncates, and \<open>interval\<close> is converted to
  \<open>uintmax_t\<close> first.
\<close>

definition rate :: "uintmax \<Rightarrow> uintmax \<Rightarrow> 32 word \<Rightarrow> uintmax" where
  "rate new old interval = (new - old) * 1000 div ucast interval"

definition rx_path :: "string \<Rightarrow> string" where
  "rx_path interface = ''/sys/class/net/'' @ interface @ ''/statistics/rx_bytes''"

definition tx_path :: "string \<Rightarrow> string" where
  "tx_path interface = ''/sys/class/net/'' @ interface @ ''/statistics/tx_bytes''"

definition netspeed_rx :: "32 word \<Rightarrow> sysfs \<Rightarrow> string \<Rightarrow> statics \<Rightarrow> human call" where
  "netspeed_rx interval fs interface s =
     (let oldrxbytes = rxbytes s;
          path = rx_path interface
      in if esnprintf PATH_MAX path < 0 then Inr (None, s)
         else case pscanf fs path (rxbytes s) of
           (n, v) \<Rightarrow>
             (let s' = s\<lparr>rxbytes := v, reads := reads s @ [Sysfs_read path]\<rparr>
              in if n \<noteq> 1 then Inr (None, s')
                 else if oldrxbytes = 0 then Inr (None, s')
                 else if interval = 0 then Inl Division_by_zero
                 else Inr (Some (fmt_human (unat (rate (rxbytes s') oldrxbytes interval)) 1024),
                           s')))"

definition netspeed_tx :: "32 word \<Rightarrow> sysfs \<Rightarrow> string \<Rightarrow> statics \<Rightarrow> human call" where
  "netspeed_tx interval fs interface s =
     (let oldtxbytes = txbytes s;
          path = tx_path interface
      in if esnprintf PATH_MAX path < 0 then Inr (None, s)
         else case pscanf fs path (txbytes s) of
           (n, v) \<Rightarrow>
             (let s' = s\<lparr>txbytes := v, reads := reads s @ [Sysfs_read path]\<rparr>
              in if n \<noteq> 1 then Inr (None, s')
                 else if oldtxbytes = 0 then Inr (None, s')
                 else if interval = 0 then Inl Division_by_zero
                 else Inr (Some (fmt_human (unat (rate (txbytes s') oldtxbytes interval)) 1024),
                           s')))"

subsection \<open>Linux: the active interface\<close>

text \<open>
  \<open>run_command\<close> is declared \<open>extern\<close> and defined elsewhere: it is a parameter, a
  function from the command line to the text the command prints, or \<open>NULL\<close>.
\<close>

definition active_interface_cmd :: string where
  "active_interface_cmd =
     ''ip link show up | grep -m 1 '' @ [CHR 0x22] @ ''BROADCAST'' @ [CHR 0x22] @
     '' | awk -F '' @ [CHR 0x22] @ '': '' @ [CHR 0x22] @ '' '' @
     [CHR 0x27] @ ''{print $2}'' @ [CHR 0x27]"

definition netspeed_get_active_interface :: "(string \<Rightarrow> string option) \<Rightarrow> string option" where
  "netspeed_get_active_interface run_command = run_command active_interface_cmd"

definition netspeed_rx_auto ::
  "32 word \<Rightarrow> (string \<Rightarrow> string option) \<Rightarrow> sysfs \<Rightarrow> statics \<Rightarrow> human call" where
  "netspeed_rx_auto interval run_command fs s =
     (case netspeed_get_active_interface run_command of
        None \<Rightarrow> Inr (None, s)
      | Some interface \<Rightarrow> netspeed_rx interval fs interface s)"

definition netspeed_tx_auto ::
  "32 word \<Rightarrow> (string \<Rightarrow> string option) \<Rightarrow> sysfs \<Rightarrow> statics \<Rightarrow> human call" where
  "netspeed_tx_auto interval run_command fs s =
     (case netspeed_get_active_interface run_command of
        None \<Rightarrow> Inr (None, s)
      | Some interface \<Rightarrow> netspeed_tx interval fs interface s)"

subsection \<open>OpenBSD and FreeBSD: netspeed_rx and netspeed_tx\<close>

text \<open>
  \<open>struct if_data\<close> with the two fields the code reads, and \<open>struct ifaddrs\<close> with its
  name and its data pointer, which may be \<open>NULL\<close>. The chain through \<open>ifa_next\<close> is a list.
  \<open>getifaddrs\<close> answers with such a list or fails (\<open>None\<close>, the result -1). The calls
  of \<open>warn\<close> write a diagnostic and change neither the result nor the statics; they are
  left out.
\<close>

record if_data =
  ifi_ibytes :: uintmax
  ifi_obytes :: uintmax

record ifaddrs =
  ifa_name :: string
  ifa_data :: "if_data option"

text \<open>
  The \<open>for\<close> loop over the list. It adds to the static variable itself, which the code
  has set to 0 before the loop, and sets \<open>if_ok\<close>.
\<close>

fun rx_loop :: "string \<Rightarrow> ifaddrs list \<Rightarrow> uintmax \<times> bool \<Rightarrow> uintmax \<times> bool" where
  "rx_loop interface [] (rxb, if_ok) = (rxb, if_ok)"
| "rx_loop interface (ifa # ifal) (rxb, if_ok) =
     (if ifa_name ifa = interface then
        (case ifa_data ifa of
           Some ifd \<Rightarrow> rx_loop interface ifal (rxb + ifi_ibytes ifd, True)
         | None \<Rightarrow> rx_loop interface ifal (rxb, if_ok))
      else rx_loop interface ifal (rxb, if_ok))"

fun tx_loop :: "string \<Rightarrow> ifaddrs list \<Rightarrow> uintmax \<times> bool \<Rightarrow> uintmax \<times> bool" where
  "tx_loop interface [] (txb, if_ok) = (txb, if_ok)"
| "tx_loop interface (ifa # ifal) (txb, if_ok) =
     (if ifa_name ifa = interface then
        (case ifa_data ifa of
           Some ifd \<Rightarrow> tx_loop interface ifal (txb + ifi_obytes ifd, True)
         | None \<Rightarrow> tx_loop interface ifal (txb, if_ok))
      else tx_loop interface ifal (txb, if_ok))"

definition netspeed_rx_bsd ::
  "32 word \<Rightarrow> ifaddrs list option \<Rightarrow> string \<Rightarrow> statics \<Rightarrow> human call" where
  "netspeed_rx_bsd interval getifaddrs interface s =
     (let oldrxbytes = rxbytes s;
          s0 = s\<lparr>reads := reads s @ [Getifaddrs_read]\<rparr>
      in case getifaddrs of
           None \<Rightarrow> Inr (None, s0)
         | Some ifal \<Rightarrow>
             (case rx_loop interface ifal (0, False) of
                (rxb, if_ok) \<Rightarrow>
                  (let s' = s0\<lparr>rxbytes := rxb\<rparr>
                   in if \<not> if_ok then Inr (None, s')
                      else if oldrxbytes = 0 then Inr (None, s')
                      else if interval = 0 then Inl Division_by_zero
                      else Inr (Some (fmt_human
                                  (unat (rate (rxbytes s') oldrxbytes interval)) 1024), s'))))"

definition netspeed_tx_bsd ::
  "32 word \<Rightarrow> ifaddrs list option \<Rightarrow> string \<Rightarrow> statics \<Rightarrow> human call" where
  "netspeed_tx_bsd interval getifaddrs interface s =
     (let oldtxbytes = txbytes s;
          s0 = s\<lparr>reads := reads s @ [Getifaddrs_read]\<rparr>
      in case getifaddrs of
           None \<Rightarrow> Inr (None, s0)
         | Some ifal \<Rightarrow>
             (case tx_loop interface ifal (0, False) of
                (txb, if_ok) \<Rightarrow>
                  (let s' = s0\<lparr>txbytes := txb\<rparr>
                   in if \<not> if_ok then Inr (None, s')
                      else if oldtxbytes = 0 then Inr (None, s')
                      else if interval = 0 then Inl Division_by_zero
                      else Inr (Some (fmt_human
                                  (unat (rate (txbytes s') oldtxbytes interval)) 1024), s'))))"

subsection \<open>Polling\<close>

text \<open>
  The status bar calls a component once per tick. \<open>ticks f es s\<close> makes one call \<open>f e\<close>
  for each element of \<open>es\<close> (what the operating system answers at that tick), threads the
  statics through, collects the results and stops at a fault.
\<close>

fun ticks ::
  "('e \<Rightarrow> statics \<Rightarrow> 'a call) \<Rightarrow> 'e list \<Rightarrow> statics \<Rightarrow> fault + ('a option list \<times> statics)" where
  "ticks f [] s = Inr ([], s)"
| "ticks f (e # es) s =
     (case f e s of
        Inl x \<Rightarrow> Inl x
      | Inr (r, s') \<Rightarrow>
          (case ticks f es s' of
             Inl x \<Rightarrow> Inl x
           | Inr (rs, s'') \<Rightarrow> Inr (r # rs, s'')))"

text \<open>
  The two states of the spec's state machine, read off the remembered value: 0 is the
  unset sentinel (\<open>NoSampleYet\<close>), anything else is a sample (\<open>HaveSample\<close>).
\<close>

datatype sampler_state = NoSampleYet | HaveSample

definition state_of :: "uintmax \<Rightarrow> sampler_state" where
  "state_of previous = (if previous = 0 then NoSampleYet else HaveSample)"

subsection \<open>The operations of the spec\<close>

text \<open>
  The spec's \<open>sample_counter(interface, direction)\<close> on Linux, stated on the file system
  of one call: the counter, or an error (\<open>None\<close>) when the path does not fit into
  \<open>PATH_MAX\<close> bytes, the file cannot be read, or its text cannot be parsed.
\<close>

datatype direction = Receive | Transmit

definition counter_path :: "direction \<Rightarrow> string \<Rightarrow> string" where
  "counter_path d interface =
     (case d of Receive \<Rightarrow> rx_path interface | Transmit \<Rightarrow> tx_path interface)"

definition sample_counter :: "sysfs \<Rightarrow> string \<Rightarrow> direction \<Rightarrow> uintmax option" where
  "sample_counter fs interface d =
     (if PATH_MAX \<le> length (counter_path d interface) then None
      else case fs (counter_path d interface) of Scanned c \<Rightarrow> Some c | _ \<Rightarrow> None)"

text \<open>
  The same operation on the BSDs, stated on the answer of \<open>getifaddrs\<close>: an error when
  the call fails or when no entry of the list has the interface's name and a data block,
  and otherwise the sum of the counters of all such entries.
\<close>

definition named :: "string \<Rightarrow> ifaddrs list \<Rightarrow> if_data list" where
  "named interface ifal =
     concat (map (\<lambda>ifa. if ifa_name ifa = interface
                         then (case ifa_data ifa of Some ifd \<Rightarrow> [ifd] | None \<Rightarrow> [])
                         else []) ifal)"

definition sample_counter_bsd :: "ifaddrs list option \<Rightarrow> string \<Rightarrow> direction \<Rightarrow> uintmax option" where
  "sample_counter_bsd getifaddrs interface d =
     (case getifaddrs of
        None \<Rightarrow> None
      | Some ifal \<Rightarrow>
          if named interface ifal = [] then None
          else Some (sum_list (map (case d of Receive \<Rightarrow> ifi_ibytes | Transmit \<Rightarrow> ifi_obytes)
                                   (named interface ifal))))"

text \<open>One call of a tick: the interface asked for and what the operating system answers.\<close>

definition rx_call :: "32 word \<Rightarrow> string \<times> sysfs \<Rightarrow> statics \<Rightarrow> human call" where
  "rx_call interval e s = netspeed_rx interval (snd e) (fst e) s"

definition tx_call :: "32 word \<Rightarrow> string \<times> sysfs \<Rightarrow> statics \<Rightarrow> human call" where
  "tx_call interval e s = netspeed_tx interval (snd e) (fst e) s"

definition rx_sample :: "string \<times> sysfs \<Rightarrow> uintmax option" where
  "rx_sample e = sample_counter (snd e) (fst e) Receive"

definition tx_sample :: "string \<times> sysfs \<Rightarrow> uintmax option" where
  "tx_sample e = sample_counter (snd e) (fst e) Transmit"

text \<open>
  The spec's \<open>compute_rate(previous, current, interval)\<close>: unavailable when \<open>previous\<close> is
  the unset sentinel 0, and \<open>(current - previous) * 1000 / interval\<close> otherwise, in the
  arithmetic of the counter type. \<open>rates\<close> is what the spec promises for a sequence of
  successful reads: each counter is rated against the one before it.
\<close>

definition compute_rate :: "uintmax \<Rightarrow> uintmax \<Rightarrow> 32 word \<Rightarrow> uintmax option" where
  "compute_rate previous current interval =
     (if previous = 0 then None else Some ((current - previous) * 1000 div ucast interval))"

fun rates :: "32 word \<Rightarrow> uintmax \<Rightarrow> uintmax list \<Rightarrow> human option list" where
  "rates interval previous [] = []"
| "rates interval previous (c # cs) =
     map_option (\<lambda>r. fmt_human (unat r) 1024) (compute_rate previous c interval)
       # rates interval c cs"

text \<open>
  A call of either direction, as the status bar may interleave them, and the remembered
  sample that a call of direction \<open>d\<close> consults.
\<close>

definition netspeed_call :: "32 word \<Rightarrow> direction \<times> string \<times> sysfs \<Rightarrow> statics \<Rightarrow> human call" where
  "netspeed_call interval e s =
     (case e of
        (Receive, interface, fs) \<Rightarrow> netspeed_rx interval fs interface s
      | (Transmit, interface, fs) \<Rightarrow> netspeed_tx interval fs interface s)"

definition previous :: "statics \<Rightarrow> direction \<Rightarrow> uintmax" where
  "previous s d = (case d of Receive \<Rightarrow> rxbytes s | Transmit \<Rightarrow> txbytes s)"

text \<open>
  Two readings of the sampler state, each as the list of results it gives for a sequence
  of calls. \<open>per_interface\<close> follows the spec's words: one previous sample for every pair
  of an interface and a direction. \<open>per_direction\<close> keeps one previous sample for every
  direction, whatever the interface. In both a failed read changes nothing.
\<close>

fun per_interface ::
  "32 word \<Rightarrow> (direction \<times> string \<times> sysfs) list \<Rightarrow> (direction \<times> string \<Rightarrow> uintmax)
     \<Rightarrow> human option list" where
  "per_interface interval [] prev = []"
| "per_interface interval ((d, i, fs) # es) prev =
     (case sample_counter fs i d of
        None \<Rightarrow> None # per_interface interval es prev
      | Some c \<Rightarrow>
          map_option (\<lambda>r. fmt_human (unat r) 1024) (compute_rate (prev (d, i)) c interval)
            # per_interface interval es (prev((d, i) := c)))"

fun per_direction ::
  "32 word \<Rightarrow> (direction \<times> string \<times> sysfs) list \<Rightarrow> (direction \<Rightarrow> uintmax)
     \<Rightarrow> human option list" where
  "per_direction interval [] prev = []"
| "per_direction interval ((d, i, fs) # es) prev =
     (case sample_counter fs i d of
        None \<Rightarrow> None # per_direction interval es prev
      | Some c \<Rightarrow>
          map_option (\<lambda>r. fmt_human (unat r) 1024) (compute_rate (prev d) c interval)
            # per_direction interval es (prev(d := c)))"

section \<open>Properties\<close>

subsection \<open>Units and digits of fmt_human\<close>

lemma prefix_index_scaled:
  assumes "0 < x"
  shows "prefix_index 1024 (1024 * x) = Suc (prefix_index 1024 x)"
  using assms by (subst prefix_index.simps) simp

lemma prefix_index_zero: "prefix_index base 0 = 0"
  by (subst prefix_index.simps) simp

lemma tenths_scaled: "tenths 1024 (Suc k) (1024 * x) = tenths 1024 k x"
proof -
  have "10 * (1024 * x) div (1024 * 1024 ^ k) = (1024 * (10 * x)) div (1024 * 1024 ^ k)"
    by (simp only: mult.left_commute)
  also have "\<dots> = 10 * x div 1024 ^ k"
    by (rule div_mult_mult1) simp
  finally show ?thesis
    by (simp only: tenths_def power_Suc)
qed

lemma tenths_zero: "tenths base k 0 = 0"
  by (simp add: tenths_def)

lemma numeral_scaled:
  "numeral_text (fmt_human (1024 * x) 1024) = numeral_text (fmt_human x 1024)"
proof (cases "x = 0")
  case True
  then show ?thesis by simp
next
  case False
  then have "0 < x" by simp
  then show ?thesis
    by (simp only: fmt_human_def human.simps numeral_of_def prefix_index_scaled tenths_scaled)
qed

lemma prefix_index_bounds:
  assumes "2 \<le> base"
  shows "num < base * base ^ prefix_index base num
         \<and> (0 < num \<longrightarrow> base ^ prefix_index base num \<le> num)"
  using assms
proof (induction base num rule: prefix_index.induct)
  case (1 base num)
  show ?case
  proof (cases "base \<le> num")
    case True
    with "1.prems" have ih: "num div base < base * base ^ prefix_index base (num div base)"
      "0 < num div base \<longrightarrow> base ^ prefix_index base (num div base) \<le> num div base"
      using "1.IH" by simp_all
    from True "1.prems" have p: "prefix_index base num = Suc (prefix_index base (num div base))"
      by (subst prefix_index.simps) simp
    from "1.prems" have b: "0 < base" by simp
    from True b have q: "0 < num div base"
      by (simp add: div_greater_zero_iff)
    have "num < base * base ^ prefix_index base (num div base) * base"
      using ih(1) b by (simp only: div_less_iff_less_mult)
    then have "num < base * (base * base ^ prefix_index base (num div base))"
      by (simp only: mult.commute)
    moreover have "base * base ^ prefix_index base (num div base) \<le> num"
    proof -
      from ih(2) q have "base ^ prefix_index base (num div base) \<le> num div base"
        by simp
      then have "base * base ^ prefix_index base (num div base) \<le> base * (num div base)"
        by simp
      also have "\<dots> \<le> num"
        by simp
      finally show ?thesis .
    qed
    ultimately show ?thesis
      by (simp add: p)
  next
    case False
    then have "prefix_index base num = 0"
      by (subst prefix_index.simps) simp
    with False show ?thesis
      by simp
  qed
qed

lemma prefix_index_least:
  assumes "2 \<le> base" and "num < base * base ^ j"
  shows "prefix_index base num \<le> j"
proof (cases "num = 0")
  case True
  then show ?thesis by (simp add: prefix_index_zero)
next
  case False
  with prefix_index_bounds [OF assms(1), of num]
  have "base ^ prefix_index base num \<le> num"
    by simp
  with assms(2) have "base ^ prefix_index base num < base ^ Suc j"
    by simp
  with assms(1) have "prefix_index base num < Suc j"
    by (simp only: power_strict_increasing_iff [of base])
  then show ?thesis by simp
qed

lemma tenths_below:
  assumes "2 \<le> base"
  shows "tenths base (prefix_index base num) num < 10 * base"
proof -
  from assms have "0 < base ^ prefix_index base num"
    by simp
  moreover from prefix_index_bounds [OF assms, of num]
  have "10 * num < 10 * base * base ^ prefix_index base num"
    by simp
  ultimately show ?thesis
    unfolding tenths_def by (simp only: less_mult_imp_div_less)
qed

lemma digit_mem:
  assumes "n < 10"
  shows "''0123456789'' ! n \<in> set ''0123456789''"
  by (rule nth_mem) (use assms in simp)

lemma show_nat_digit:
  assumes "n < 10"
  shows "show_nat n = [''0123456789'' ! n]"
  using assms by (subst show_nat.simps) simp

lemma show_nat_digits: "show_nat n \<noteq> [] \<and> set (show_nat n) \<subseteq> set ''0123456789''"
proof (induction n rule: show_nat.induct)
  case (1 n)
  show ?case
  proof (cases "n < 10")
    case True
    with digit_mem [OF True] show ?thesis
      by (simp only: show_nat_digit) simp
  next
    case False
    have m: "''0123456789'' ! (n mod 10) \<in> set ''0123456789''"
      by (rule digit_mem) simp
    from False have "show_nat n = show_nat (n div 10) @ [''0123456789'' ! (n mod 10)]"
      by (subst show_nat.simps) simp
    with "1.IH" [OF False] m show ?thesis
      by simp
  qed
qed

lemma numeral_of_shape:
  "\<exists>ds d. numeral_of base k num = ds @ ''.'' @ [d] \<and> ds \<noteq> []
      \<and> set ds \<subseteq> set ''0123456789'' \<and> d \<in> set ''0123456789''"
proof -
  have "tenths base k num mod 10 < 10"
    by simp
  then have "show_nat (tenths base k num mod 10) = [''0123456789'' ! (tenths base k num mod 10)]"
    and "''0123456789'' ! (tenths base k num mod 10) \<in> set ''0123456789''"
    by (rule show_nat_digit, rule digit_mem)
  with show_nat_digits [of "tenths base k num div 10"] show ?thesis
    unfolding numeral_of_def by blast
qed

lemma fmt_human_example: "fmt_human 1050000 1024 = \<lparr>numeral_text = ''1.0'', unit_level = 2\<rparr>"
  by (simp add: fmt_human_def numeral_of_def tenths_def prefix_index.simps show_nat.simps)

lemma fmt_human_4000: "fmt_human 4000 1024 = \<lparr>numeral_text = ''3.9'', unit_level = 1\<rparr>"
  by (simp add: fmt_human_def numeral_of_def tenths_def prefix_index.simps show_nat.simps)

lemma fmt_human_wrapped:
  "fmt_human 18446744073709550 1024 = \<lparr>numeral_text = ''16.3'', unit_level = 5\<rparr>"
  "fmt_human 18446744073709551615 1024 = \<lparr>numeral_text = ''15.9'', unit_level = 6\<rparr>"
  by (simp_all add: fmt_human_def numeral_of_def tenths_def prefix_index.simps show_nat.simps)

subsection \<open>The arithmetic of the rate\<close>

lemma mod_wrap:
  fixes a b M :: nat
  assumes "a < M" and "b < M"
  shows "(a + M - b) mod M = (if b \<le> a then a - b else a + M - b)"
proof (cases "b \<le> a")
  case True
  then have "a + M - b = (a - b) + M"
    by arith
  moreover have "a - b < M"
    using assms(1) by arith
  ultimately show ?thesis
    using True by (simp only: mod_add_self2 mod_less if_True)
next
  case False
  then have "a + M - b < M"
    using assms(2) by arith
  then show ?thesis
    using False by (simp only: mod_less if_False)
qed

lemma unat_difference:
  "unat (new - old :: uintmax) = (unat new + 2 ^ 64 - unat old) mod 2 ^ 64"
proof -
  have l: "LENGTH(64) = 64"
    by simp
  have b: "unat new < 2 ^ 64" "unat old < 2 ^ 64"
    using unsigned_less [of new] unsigned_less [of old] by (simp_all only: l)
  have "unat (new - old) = (if unat old \<le> unat new then unat new - unat old
                             else unat new + 2 ^ 64 - unat old)"
    using unat_sub_if' [of new old] by (simp only: l)
  then show ?thesis
    by (simp only: mod_wrap [OF b])
qed

lemma unat_interval: "unat (ucast (interval :: 32 word) :: uintmax) = unat interval"
proof -
  have "unat interval < 2 ^ 32"
    using unsigned_less [of interval] by simp
  also have "(2 :: nat) ^ 32 \<le> 2 ^ 64"
    by (rule power_increasing) simp_all
  finally have "unat interval < 2 ^ 64" .
  then show ?thesis
    by (simp add: unsigned_ucast_eq take_bit_nat_eq_self_iff)
qed

lemma unat_thousand: "unat (1000 :: uintmax) = 1000"
  by simp

lemma rate_unat:
  "unat (rate new old interval)
     = ((unat new + 2 ^ 64 - unat old) mod 2 ^ 64 * 1000 mod 2 ^ 64) div unat interval"
proof -
  have l: "LENGTH(64) = 64"
    by simp
  have "unat ((new - old) * 1000) = unat (new - old) * unat (1000 :: uintmax) mod 2 ^ 64"
    using unat_word_ariths(2) [of "new - old" "1000 :: uintmax"] by (simp only: l)
  then have "unat ((new - old) * 1000)
               = (unat new + 2 ^ 64 - unat old) mod 2 ^ 64 * 1000 mod 2 ^ 64"
    by (simp only: unat_difference unat_thousand)
  then show ?thesis
    unfolding rate_def by (simp only: unat_div unat_interval)
qed

lemma rate_exact:
  assumes "old \<le> new" and "(unat new - unat old) * 1000 < 2 ^ 64"
  shows "unat (rate new old interval) = (unat new - unat old) * 1000 div unat interval"
proof -
  have l: "LENGTH(64) = 64"
    by simp
  have d: "unat (new - old) = unat new - unat old"
    using assms(1) by (rule unat_sub)
  have "unat (new - old) * unat (1000 :: uintmax) < 2 ^ LENGTH(64)"
    using assms(2) by (simp only: d unat_thousand l)
  then have "unat ((new - old) * 1000) = unat (new - old) * unat (1000 :: uintmax)"
    by (simp only: unat_mult_lem)
  then have "unat ((new - old) * 1000) = (unat new - unat old) * 1000"
    by (simp only: d unat_thousand)
  then show ?thesis
    unfolding rate_def by (simp only: unat_div unat_interval)
qed

lemma uint_interval: "uint (ucast (interval :: 32 word) :: uintmax) = uint interval"
  by (simp only: uint_nat unat_interval)

lemma rate_uint:
  "uint (rate new old interval)
     = ((uint new - uint old) mod 2 ^ 64 * 1000 mod 2 ^ 64) div uint interval"
proof -
  have l: "LENGTH(64) = 64"
    by simp
  have t: "uint (1000 :: uintmax) = 1000"
    by simp
  have "uint (new - old) = (uint new - uint old) mod 2 ^ 64"
    using uint_word_ariths(2) [of new old] by (simp only: l)
  moreover have "uint ((new - old) * 1000) = uint (new - old) * uint (1000 :: uintmax) mod 2 ^ 64"
    using uint_word_ariths(3) [of "new - old" "1000 :: uintmax"] by (simp only: l)
  ultimately have "uint ((new - old) * 1000) = (uint new - uint old) mod 2 ^ 64 * 1000 mod 2 ^ 64"
    by (simp only: t)
  then show ?thesis
    unfolding rate_def by (simp only: uint_div uint_interval)
qed

subsection \<open>One call on Linux\<close>

lemma netspeed_rx_failed:
  assumes "sample_counter fs i Receive = None"
  shows "\<exists>s'. netspeed_rx interval fs i s = Inr (None, s') \<and> rxbytes s' = rxbytes s
           \<and> txbytes s' = txbytes s"
  using assms
  by (auto simp: netspeed_rx_def sample_counter_def counter_path_def esnprintf_def pscanf_def
      Let_def split: scan.splits if_splits)

lemma netspeed_tx_failed:
  assumes "sample_counter fs i Transmit = None"
  shows "\<exists>s'. netspeed_tx interval fs i s = Inr (None, s') \<and> txbytes s' = txbytes s
           \<and> rxbytes s' = rxbytes s"
  using assms
  by (auto simp: netspeed_tx_def sample_counter_def counter_path_def esnprintf_def pscanf_def
      Let_def split: scan.splits if_splits)

lemma netspeed_rx_first:
  assumes "sample_counter fs i Receive = Some c" and "rxbytes s = 0"
  shows "netspeed_rx interval fs i s =
           Inr (None, s\<lparr>rxbytes := c, reads := reads s @ [Sysfs_read (rx_path i)]\<rparr>)"
  using assms
  by (auto simp: netspeed_rx_def sample_counter_def counter_path_def esnprintf_def pscanf_def
      Let_def split: scan.splits if_splits)

lemma netspeed_tx_first:
  assumes "sample_counter fs i Transmit = Some c" and "txbytes s = 0"
  shows "netspeed_tx interval fs i s =
           Inr (None, s\<lparr>txbytes := c, reads := reads s @ [Sysfs_read (tx_path i)]\<rparr>)"
  using assms
  by (auto simp: netspeed_tx_def sample_counter_def counter_path_def esnprintf_def pscanf_def
      Let_def split: scan.splits if_splits)

lemma netspeed_rx_next:
  assumes "sample_counter fs i Receive = Some c" and "rxbytes s \<noteq> 0" and "interval \<noteq> 0"
  shows "netspeed_rx interval fs i s =
           Inr (Some (fmt_human (unat (rate c (rxbytes s) interval)) 1024),
                s\<lparr>rxbytes := c, reads := reads s @ [Sysfs_read (rx_path i)]\<rparr>)"
  using assms
  by (auto simp: netspeed_rx_def sample_counter_def counter_path_def esnprintf_def pscanf_def
      Let_def split: scan.splits if_splits)

lemma netspeed_tx_next:
  assumes "sample_counter fs i Transmit = Some c" and "txbytes s \<noteq> 0" and "interval \<noteq> 0"
  shows "netspeed_tx interval fs i s =
           Inr (Some (fmt_human (unat (rate c (txbytes s) interval)) 1024),
                s\<lparr>txbytes := c, reads := reads s @ [Sysfs_read (tx_path i)]\<rparr>)"
  using assms
  by (auto simp: netspeed_tx_def sample_counter_def counter_path_def esnprintf_def pscanf_def
      Let_def split: scan.splits if_splits)

lemma netspeed_rx_unset:
  assumes "rxbytes s = 0"
  shows "\<exists>s'. netspeed_rx interval fs i s = Inr (None, s')"
proof (cases "sample_counter fs i Receive")
  case None
  from netspeed_rx_failed [OF None] show ?thesis by blast
next
  case (Some c)
  from netspeed_rx_first [OF Some assms] show ?thesis by blast
qed

lemma netspeed_tx_unset:
  assumes "txbytes s = 0"
  shows "\<exists>s'. netspeed_tx interval fs i s = Inr (None, s')"
proof (cases "sample_counter fs i Transmit")
  case None
  from netspeed_tx_failed [OF None] show ?thesis by blast
next
  case (Some c)
  from netspeed_tx_first [OF Some assms] show ?thesis by blast
qed

subsection \<open>One call on the BSDs\<close>

lemma rx_loop_acc:
  "rx_loop i ifal (rxb, ok) =
     (rxb + sum_list (map ifi_ibytes (named i ifal)), ok \<or> named i ifal \<noteq> [])"
  by (induction ifal arbitrary: rxb ok) (auto simp: named_def split: option.splits)

lemma tx_loop_acc:
  "tx_loop i ifal (txb, ok) =
     (txb + sum_list (map ifi_obytes (named i ifal)), ok \<or> named i ifal \<noteq> [])"
  by (induction ifal arbitrary: txb ok) (auto simp: named_def split: option.splits)

lemma netspeed_rx_bsd_result:
  "netspeed_rx_bsd interval g i s =
     (case sample_counter_bsd g i Receive of
        None \<Rightarrow>
          Inr (None, s\<lparr>rxbytes := (if g = None then rxbytes s else 0),
                       reads := reads s @ [Getifaddrs_read]\<rparr>)
      | Some c \<Rightarrow>
          if rxbytes s = 0
          then Inr (None, s\<lparr>rxbytes := c, reads := reads s @ [Getifaddrs_read]\<rparr>)
          else if interval = 0 then Inl Division_by_zero
          else Inr (Some (fmt_human (unat (rate c (rxbytes s) interval)) 1024),
                    s\<lparr>rxbytes := c, reads := reads s @ [Getifaddrs_read]\<rparr>))"
  by (cases g) (simp_all add: netspeed_rx_bsd_def sample_counter_bsd_def rx_loop_acc Let_def)

lemma netspeed_tx_bsd_result:
  "netspeed_tx_bsd interval g i s =
     (case sample_counter_bsd g i Transmit of
        None \<Rightarrow>
          Inr (None, s\<lparr>txbytes := (if g = None then txbytes s else 0),
                       reads := reads s @ [Getifaddrs_read]\<rparr>)
      | Some c \<Rightarrow>
          if txbytes s = 0
          then Inr (None, s\<lparr>txbytes := c, reads := reads s @ [Getifaddrs_read]\<rparr>)
          else if interval = 0 then Inl Division_by_zero
          else Inr (Some (fmt_human (unat (rate c (txbytes s) interval)) 1024),
                    s\<lparr>txbytes := c, reads := reads s @ [Getifaddrs_read]\<rparr>))"
  by (cases g) (simp_all add: netspeed_tx_bsd_def sample_counter_bsd_def tx_loop_acc Let_def)

lemma netspeed_rx_bsd_unset:
  assumes "rxbytes s = 0"
  shows "\<exists>s'. netspeed_rx_bsd interval g i s = Inr (None, s')"
  using assms by (auto simp: netspeed_rx_bsd_def Let_def split: option.splits prod.splits)

lemma netspeed_tx_bsd_unset:
  assumes "txbytes s = 0"
  shows "\<exists>s'. netspeed_tx_bsd interval g i s = Inr (None, s')"
  using assms by (auto simp: netspeed_tx_bsd_def Let_def split: option.splits prod.splits)

subsection \<open>Results and stores of one call\<close>

lemma netspeed_rx_null_iff:
  assumes "interval \<noteq> 0"
  shows "\<exists>r s'. netspeed_rx interval fs i s = Inr (r, s')
           \<and> (r = None \<longleftrightarrow> sample_counter fs i Receive = None \<or> rxbytes s = 0)
           \<and> length (reads s') \<le> Suc (length (reads s))"
  using assms
  by (auto simp: netspeed_rx_def sample_counter_def counter_path_def esnprintf_def pscanf_def
      Let_def split: scan.splits)

lemma netspeed_tx_null_iff:
  assumes "interval \<noteq> 0"
  shows "\<exists>r s'. netspeed_tx interval fs i s = Inr (r, s')
           \<and> (r = None \<longleftrightarrow> sample_counter fs i Transmit = None \<or> txbytes s = 0)
           \<and> length (reads s') \<le> Suc (length (reads s))"
  using assms
  by (auto simp: netspeed_tx_def sample_counter_def counter_path_def esnprintf_def pscanf_def
      Let_def split: scan.splits)

lemma netspeed_rx_bsd_null_iff:
  assumes "interval \<noteq> 0"
  shows "\<exists>r s'. netspeed_rx_bsd interval g i s = Inr (r, s')
           \<and> (r = None \<longleftrightarrow> sample_counter_bsd g i Receive = None \<or> rxbytes s = 0)
           \<and> length (reads s') \<le> Suc (length (reads s))"
  using assms by (simp add: netspeed_rx_bsd_result split: option.splits)

lemma netspeed_tx_bsd_null_iff:
  assumes "interval \<noteq> 0"
  shows "\<exists>r s'. netspeed_tx_bsd interval g i s = Inr (r, s')
           \<and> (r = None \<longleftrightarrow> sample_counter_bsd g i Transmit = None \<or> txbytes s = 0)
           \<and> length (reads s') \<le> Suc (length (reads s))"
  using assms by (simp add: netspeed_tx_bsd_result split: option.splits)

lemma netspeed_rx_stores:
  assumes "interval \<noteq> 0" and "sample_counter fs i Receive = Some c"
  shows "\<exists>r s'. netspeed_rx interval fs i s = Inr (r, s') \<and> rxbytes s' = c"
proof (cases "rxbytes s = 0")
  case True
  from netspeed_rx_first [OF assms(2) True, of interval] show ?thesis
    by simp
next
  case False
  from netspeed_rx_next [OF assms(2) False assms(1)] show ?thesis
    by simp
qed

lemma netspeed_tx_stores:
  assumes "interval \<noteq> 0" and "sample_counter fs i Transmit = Some c"
  shows "\<exists>r s'. netspeed_tx interval fs i s = Inr (r, s') \<and> txbytes s' = c"
proof (cases "txbytes s = 0")
  case True
  from netspeed_tx_first [OF assms(2) True, of interval] show ?thesis
    by simp
next
  case False
  from netspeed_tx_next [OF assms(2) False assms(1)] show ?thesis
    by simp
qed

subsection \<open>Sequences of calls\<close>

lemma ticks_append:
  "ticks f (es @ es') s =
     (case ticks f es s of
        Inl x \<Rightarrow> Inl x
      | Inr (rs, s') \<Rightarrow>
          (case ticks f es' s' of
             Inl x \<Rightarrow> Inl x
           | Inr (rs', s'') \<Rightarrow> Inr (rs @ rs', s'')))"
  by (induction es arbitrary: s) (auto split: sum.splits prod.splits)

lemma ticks_rx_failed:
  assumes "\<forall>e \<in> set es. rx_sample e = None"
  shows "\<exists>s'. ticks (rx_call interval) es s = Inr (replicate (length es) None, s')
           \<and> rxbytes s' = rxbytes s \<and> txbytes s' = txbytes s"
  using assms
proof (induction es arbitrary: s)
  case Nil
  then show ?case by simp
next
  case (Cons e es)
  from Cons.prems have "sample_counter (snd e) (fst e) Receive = None"
    by (simp add: rx_sample_def)
  from netspeed_rx_failed [OF this, of interval s]
  obtain s1 where s1: "rx_call interval e s = Inr (None, s1)" "rxbytes s1 = rxbytes s"
    "txbytes s1 = txbytes s"
    by (auto simp: rx_call_def)
  from Cons.prems have "\<forall>e \<in> set es. rx_sample e = None" by simp
  from Cons.IH [OF this, of s1]
  obtain s' where "ticks (rx_call interval) es s1 = Inr (replicate (length es) None, s')"
    "rxbytes s' = rxbytes s1" "txbytes s' = txbytes s1"
    by blast
  with s1 show ?case by simp
qed

lemma ticks_tx_failed:
  assumes "\<forall>e \<in> set es. tx_sample e = None"
  shows "\<exists>s'. ticks (tx_call interval) es s = Inr (replicate (length es) None, s')
           \<and> txbytes s' = txbytes s \<and> rxbytes s' = rxbytes s"
  using assms
proof (induction es arbitrary: s)
  case Nil
  then show ?case by simp
next
  case (Cons e es)
  from Cons.prems have "sample_counter (snd e) (fst e) Transmit = None"
    by (simp add: tx_sample_def)
  from netspeed_tx_failed [OF this, of interval s]
  obtain s1 where s1: "tx_call interval e s = Inr (None, s1)" "txbytes s1 = txbytes s"
    "rxbytes s1 = rxbytes s"
    by (auto simp: tx_call_def)
  from Cons.prems have "\<forall>e \<in> set es. tx_sample e = None" by simp
  from Cons.IH [OF this, of s1]
  obtain s' where "ticks (tx_call interval) es s1 = Inr (replicate (length es) None, s')"
    "txbytes s' = txbytes s1" "rxbytes s' = rxbytes s1"
    by blast
  with s1 show ?case by simp
qed

lemma ticks_rx_unset_last:
  assumes "\<forall>e \<in> set es. rx_sample e = None" and "rxbytes s = 0"
  shows "\<exists>s'. ticks (rx_call interval) (es @ [e]) s = Inr (replicate (length es) None @ [None], s')"
proof -
  from ticks_rx_failed [OF assms(1), of interval s]
  obtain s1 where s1: "ticks (rx_call interval) es s = Inr (replicate (length es) None, s1)"
    "rxbytes s1 = rxbytes s"
    by blast
  with assms(2) have "rxbytes s1 = 0" by simp
  from netspeed_rx_unset [OF this, of interval "snd e" "fst e"]
  obtain s' where "rx_call interval e s1 = Inr (None, s')"
    by (auto simp: rx_call_def)
  with s1 show ?thesis by (simp add: ticks_append)
qed

lemma ticks_tx_unset_last:
  assumes "\<forall>e \<in> set es. tx_sample e = None" and "txbytes s = 0"
  shows "\<exists>s'. ticks (tx_call interval) (es @ [e]) s = Inr (replicate (length es) None @ [None], s')"
proof -
  from ticks_tx_failed [OF assms(1), of interval s]
  obtain s1 where s1: "ticks (tx_call interval) es s = Inr (replicate (length es) None, s1)"
    "txbytes s1 = txbytes s"
    by blast
  with assms(2) have "txbytes s1 = 0" by simp
  from netspeed_tx_unset [OF this, of interval "snd e" "fst e"]
  obtain s' where "tx_call interval e s1 = Inr (None, s')"
    by (auto simp: tx_call_def)
  with s1 show ?thesis by (simp add: ticks_append)
qed

lemma rx_call_sample:
  assumes "interval \<noteq> 0" and "rx_sample e = Some c"
  shows "rx_call interval e s =
           Inr (map_option (\<lambda>r. fmt_human (unat r) 1024) (compute_rate (rxbytes s) c interval),
                s\<lparr>rxbytes := c, reads := reads s @ [Sysfs_read (rx_path (fst e))]\<rparr>)"
proof -
  from assms(2) have c: "sample_counter (snd e) (fst e) Receive = Some c"
    by (simp add: rx_sample_def)
  show ?thesis
  proof (cases "rxbytes s = 0")
    case True
    with netspeed_rx_first [OF c True, of interval] show ?thesis
      by (simp add: rx_call_def compute_rate_def)
  next
    case False
    with netspeed_rx_next [OF c False assms(1)] show ?thesis
      by (simp add: rx_call_def compute_rate_def rate_def)
  qed
qed

lemma tx_call_sample:
  assumes "interval \<noteq> 0" and "tx_sample e = Some c"
  shows "tx_call interval e s =
           Inr (map_option (\<lambda>r. fmt_human (unat r) 1024) (compute_rate (txbytes s) c interval),
                s\<lparr>txbytes := c, reads := reads s @ [Sysfs_read (tx_path (fst e))]\<rparr>)"
proof -
  from assms(2) have c: "sample_counter (snd e) (fst e) Transmit = Some c"
    by (simp add: tx_sample_def)
  show ?thesis
  proof (cases "txbytes s = 0")
    case True
    with netspeed_tx_first [OF c True, of interval] show ?thesis
      by (simp add: tx_call_def compute_rate_def)
  next
    case False
    with netspeed_tx_next [OF c False assms(1)] show ?thesis
      by (simp add: tx_call_def compute_rate_def rate_def)
  qed
qed

lemma ticks_rx_samples:
  assumes "interval \<noteq> 0" and "map rx_sample es = map Some cs"
  shows "\<exists>s'. ticks (rx_call interval) es s = Inr (rates interval (rxbytes s) cs, s')
           \<and> rxbytes s' = last (rxbytes s # cs) \<and> txbytes s' = txbytes s"
  using assms(2)
proof (induction es arbitrary: s cs)
  case Nil
  then show ?case by simp
next
  case (Cons e es)
  then obtain c cs' where cs: "cs = c # cs'" "rx_sample e = Some c"
    "map rx_sample es = map Some cs'"
    by (cases cs) auto
  from Cons.IH [OF cs(3), of "s\<lparr>rxbytes := c, reads := reads s @ [Sysfs_read (rx_path (fst e))]\<rparr>"]
  show ?case
    by (auto simp: cs rx_call_sample [OF assms(1) cs(2)])
qed

lemma ticks_tx_samples:
  assumes "interval \<noteq> 0" and "map tx_sample es = map Some cs"
  shows "\<exists>s'. ticks (tx_call interval) es s = Inr (rates interval (txbytes s) cs, s')
           \<and> txbytes s' = last (txbytes s # cs) \<and> rxbytes s' = rxbytes s"
  using assms(2)
proof (induction es arbitrary: s cs)
  case Nil
  then show ?case by simp
next
  case (Cons e es)
  then obtain c cs' where cs: "cs = c # cs'" "tx_sample e = Some c"
    "map tx_sample es = map Some cs'"
    by (cases cs) auto
  from Cons.IH [OF cs(3), of "s\<lparr>txbytes := c, reads := reads s @ [Sysfs_read (tx_path (fst e))]\<rparr>"]
  show ?case
    by (auto simp: cs tx_call_sample [OF assms(1) cs(2)])
qed

lemma length_rates: "length (rates interval p cs) = length cs"
  by (induction cs arbitrary: p) simp_all

lemma rates_nth:
  assumes "k < length cs"
  shows "rates interval p cs ! k =
           map_option (\<lambda>r. fmt_human (unat r) 1024)
             (compute_rate ((p # cs) ! k) (cs ! k) interval)"
  using assms
proof (induction cs arbitrary: p k)
  case Nil
  then show ?case by simp
next
  case (Cons c cs)
  then show ?case by (cases k) simp_all
qed

lemma netspeed_call_failed:
  assumes "sample_counter fs i d = None"
  shows "\<exists>s'. netspeed_call interval (d, i, fs) s = Inr (None, s') \<and> previous s' = previous s"
proof (cases d)
  case Receive
  with assms netspeed_rx_failed [of fs i interval s]
  obtain s' where "netspeed_rx interval fs i s = Inr (None, s')" "rxbytes s' = rxbytes s"
    "txbytes s' = txbytes s"
    by auto
  then have "previous s' = previous s"
    by (auto simp: previous_def fun_eq_iff split: direction.splits)
  with \<open>netspeed_rx interval fs i s = Inr (None, s')\<close> Receive show ?thesis
    by (simp add: netspeed_call_def)
next
  case Transmit
  with assms netspeed_tx_failed [of fs i interval s]
  obtain s' where "netspeed_tx interval fs i s = Inr (None, s')" "rxbytes s' = rxbytes s"
    "txbytes s' = txbytes s"
    by auto
  then have "previous s' = previous s"
    by (auto simp: previous_def fun_eq_iff split: direction.splits)
  with \<open>netspeed_tx interval fs i s = Inr (None, s')\<close> Transmit show ?thesis
    by (simp add: netspeed_call_def)
qed

lemma netspeed_call_sample:
  assumes "interval \<noteq> 0" and "sample_counter fs i d = Some c"
  shows "\<exists>s'. netspeed_call interval (d, i, fs) s =
                Inr (map_option (\<lambda>r. fmt_human (unat r) 1024)
                       (compute_rate (previous s d) c interval), s')
             \<and> previous s' = (previous s)(d := c)"
proof (cases d)
  case Receive
  with assms(2) have "rx_sample (i, fs) = Some c"
    by (simp add: rx_sample_def)
  from rx_call_sample [OF assms(1) this, of s] Receive show ?thesis
    by (auto simp: netspeed_call_def rx_call_def previous_def fun_eq_iff split: direction.splits)
next
  case Transmit
  with assms(2) have "tx_sample (i, fs) = Some c"
    by (simp add: tx_sample_def)
  from tx_call_sample [OF assms(1) this, of s] Transmit show ?thesis
    by (auto simp: netspeed_call_def tx_call_def previous_def fun_eq_iff split: direction.splits)
qed

lemma ticks_per_direction:
  assumes "interval \<noteq> 0"
  shows "\<exists>s'. ticks (netspeed_call interval) es s
                = Inr (per_direction interval es (previous s), s')"
proof (induction es arbitrary: s)
  case Nil
  show ?case by simp
next
  case (Cons e es)
  obtain d i fs where e: "e = (d, i, fs)"
    by (cases e)
  show ?case
  proof (cases "sample_counter fs i d")
    case None
    from netspeed_call_failed [OF None, of interval s]
    obtain s1 where s1: "netspeed_call interval (d, i, fs) s = Inr (None, s1)"
      "previous s1 = previous s"
      by blast
    from Cons.IH [of s1]
    obtain s' where "ticks (netspeed_call interval) es s1
        = Inr (per_direction interval es (previous s1), s')"
      by blast
    with s1 None show ?thesis
      by (simp add: e)
  next
    case (Some c)
    from netspeed_call_sample [OF assms Some, of s]
    obtain s1 where s1: "netspeed_call interval (d, i, fs) s =
        Inr (map_option (\<lambda>r. fmt_human (unat r) 1024) (compute_rate (previous s d) c interval), s1)"
      "previous s1 = (previous s)(d := c)"
      by blast
    from Cons.IH [of s1]
    obtain s' where "ticks (netspeed_call interval) es s1
        = Inr (per_direction interval es (previous s1), s')"
      by blast
    then have "ticks (netspeed_call interval) (e # es) s
        = Inr (map_option (\<lambda>r. fmt_human (unat r) 1024) (compute_rate (previous s d) c interval)
                 # per_direction interval es (previous s1), s')"
      by (simp add: e s1(1))
    moreover have "per_direction interval (e # es) (previous s)
        = map_option (\<lambda>r. fmt_human (unat r) 1024) (compute_rate (previous s d) c interval)
            # per_direction interval es (previous s1)"
      by (simp only: e per_direction.simps Some option.case s1(2))
    ultimately show ?thesis
      by simp
  qed
qed

lemma ticks_state:
  assumes "interval \<noteq> 0" and "\<forall>e \<in> set es. sample_counter (snd (snd e)) (fst (snd e)) (fst e) \<noteq> Some 0"
  shows "\<exists>outs s'. ticks (netspeed_call interval) es s = Inr (outs, s')
           \<and> (\<forall>d. state_of (previous s' d) =
                 (if state_of (previous s d) = HaveSample
                     \<or> (\<exists>e \<in> set es. fst e = d
                           \<and> sample_counter (snd (snd e)) (fst (snd e)) d \<noteq> None)
                  then HaveSample else NoSampleYet))"
  using assms(2)
proof (induction es arbitrary: s)
  case Nil
  show ?case by (simp add: state_of_def)
next
  case (Cons e es)
  obtain d0 i fs where e: "e = (d0, i, fs)"
    by (cases e)
  from Cons.prems have rest: "\<forall>e \<in> set es. sample_counter (snd (snd e)) (fst (snd e)) (fst e) \<noteq> Some 0"
    and nz: "sample_counter fs i d0 \<noteq> Some 0"
    by (simp_all add: e)
  show ?case
  proof (cases "sample_counter fs i d0")
    case None
    from netspeed_call_failed [OF None, of interval s]
    obtain s1 where s1: "netspeed_call interval (d0, i, fs) s = Inr (None, s1)"
      "previous s1 = previous s"
      by blast
    from Cons.IH [OF rest, of s1]
    obtain outs s' where t: "ticks (netspeed_call interval) es s1 = Inr (outs, s')"
      and st: "\<forall>d. state_of (previous s' d) =
                 (if state_of (previous s1 d) = HaveSample
                     \<or> (\<exists>e \<in> set es. fst e = d
                           \<and> sample_counter (snd (snd e)) (fst (snd e)) d \<noteq> None)
                  then HaveSample else NoSampleYet)"
      by blast
    have "ticks (netspeed_call interval) (e # es) s = Inr (None # outs, s')"
      by (simp add: e s1(1) t)
    moreover have "\<forall>d. state_of (previous s' d) =
                 (if state_of (previous s d) = HaveSample
                     \<or> (\<exists>e \<in> set (e # es). fst e = d
                           \<and> sample_counter (snd (snd e)) (fst (snd e)) d \<noteq> None)
                  then HaveSample else NoSampleYet)"
      using st None by (auto simp: e s1(2))
    ultimately show ?thesis
      by blast
  next
    case (Some c)
    with nz have c: "c \<noteq> 0"
      by auto
    from netspeed_call_sample [OF assms(1) Some, of s]
    obtain r s1 where s1: "netspeed_call interval (d0, i, fs) s = Inr (r, s1)"
      "previous s1 = (previous s)(d0 := c)"
      by blast
    from Cons.IH [OF rest, of s1]
    obtain outs s' where t: "ticks (netspeed_call interval) es s1 = Inr (outs, s')"
      and st: "\<forall>d. state_of (previous s' d) =
                 (if state_of (previous s1 d) = HaveSample
                     \<or> (\<exists>e \<in> set es. fst e = d
                           \<and> sample_counter (snd (snd e)) (fst (snd e)) d \<noteq> None)
                  then HaveSample else NoSampleYet)"
      by blast
    have "ticks (netspeed_call interval) (e # es) s = Inr (r # outs, s')"
      by (simp add: e s1(1) t)
    moreover have "\<forall>d. state_of (previous s' d) =
                 (if state_of (previous s d) = HaveSample
                     \<or> (\<exists>e \<in> set (e # es). fst e = d
                           \<and> sample_counter (snd (snd e)) (fst (snd e)) d \<noteq> None)
                  then HaveSample else NoSampleYet)"
      using st Some c by (auto simp: e s1(2) state_of_def)
    ultimately show ?thesis
      by blast
  qed
qed

section \<open>The claims of the spec\<close>

subsection \<open>The rate of a successful read\<close>

text \<open>
  C1. Let the calls \<open>es\<close> of \<open>netspeed_rx\<close> (of \<open>netspeed_tx\<close>) all read their counter
  successfully, call \<open>k\<close> reading \<open>cs ! k\<close>, and let the sample remembered when call \<open>k\<close>
  is made be nonzero: that sample is \<open>cs ! (k - 1)\<close>, or for the first call what the
  statics hold. Then call \<open>k\<close> returns the string that \<open>fmt_human\<close> makes, with base 1024,
  of \<open>(current - previous) * 1000 / interval\<close>, computed as the code computes it, in
  \<open>uintmax_t\<close>. A single call is the sequence of length one. The last part says when this
  is the number of ordinary arithmetic: when the counter has not gone down and the
  product with 1000 still fits into 64 bits. The interval is nonzero, as the spec has it.
\<close>

theorem rate_of_successful_reads:
  assumes "interval \<noteq> 0" and "k < length cs"
  shows
    "(map rx_sample es = map Some cs \<and> (rxbytes s # cs) ! k \<noteq> 0 \<longrightarrow>
        (\<exists>outs s'. ticks (rx_call interval) es s = Inr (outs, s') \<and> length outs = length cs
           \<and> outs ! k = Some (fmt_human
                (unat ((cs ! k - (rxbytes s # cs) ! k) * 1000 div ucast interval)) 1024)))
     \<and> (map tx_sample es = map Some cs \<and> (txbytes s # cs) ! k \<noteq> 0 \<longrightarrow>
        (\<exists>outs s'. ticks (tx_call interval) es s = Inr (outs, s') \<and> length outs = length cs
           \<and> outs ! k = Some (fmt_human
                (unat ((cs ! k - (txbytes s # cs) ! k) * 1000 div ucast interval)) 1024)))
     \<and> ((p :: uintmax) \<le> c \<and> (unat c - unat p) * 1000 < 2 ^ 64 \<longrightarrow>
          unat ((c - p) * 1000 div ucast interval) = (unat c - unat p) * 1000 div unat interval)"
proof (intro conjI impI)
  assume a: "map rx_sample es = map Some cs \<and> (rxbytes s # cs) ! k \<noteq> 0"
  from ticks_rx_samples [OF assms(1), of es cs s] a
  obtain s' where "ticks (rx_call interval) es s = Inr (rates interval (rxbytes s) cs, s')"
    by blast
  moreover have "rates interval (rxbytes s) cs ! k = Some (fmt_human
      (unat ((cs ! k - (rxbytes s # cs) ! k) * 1000 div ucast interval)) 1024)"
    using a by (simp add: rates_nth [OF assms(2)] compute_rate_def)
  ultimately show "\<exists>outs s'. ticks (rx_call interval) es s = Inr (outs, s')
      \<and> length outs = length cs
      \<and> outs ! k = Some (fmt_human
            (unat ((cs ! k - (rxbytes s # cs) ! k) * 1000 div ucast interval)) 1024)"
    by (simp add: length_rates)
next
  assume a: "map tx_sample es = map Some cs \<and> (txbytes s # cs) ! k \<noteq> 0"
  from ticks_tx_samples [OF assms(1), of es cs s] a
  obtain s' where "ticks (tx_call interval) es s = Inr (rates interval (txbytes s) cs, s')"
    by blast
  moreover have "rates interval (txbytes s) cs ! k = Some (fmt_human
      (unat ((cs ! k - (txbytes s # cs) ! k) * 1000 div ucast interval)) 1024)"
    using a by (simp add: rates_nth [OF assms(2)] compute_rate_def)
  ultimately show "\<exists>outs s'. ticks (tx_call interval) es s = Inr (outs, s')
      \<and> length outs = length cs
      \<and> outs ! k = Some (fmt_human
            (unat ((cs ! k - (txbytes s # cs) ! k) * 1000 div ucast interval)) 1024)"
    by (simp add: length_rates)
next
  assume "p \<le> c \<and> (unat c - unat p) * 1000 < 2 ^ 64"
  then have "unat (rate c p interval) = (unat c - unat p) * 1000 div unat interval"
    by (simp only: rate_exact)
  then show "unat ((c - p) * 1000 div ucast interval) = (unat c - unat p) * 1000 div unat interval"
    by (simp only: rate_def)
qed

theorem rate_of_successful_reads_witness:
  "(1000 :: 32 word) \<noteq> 0 \<and> (1 :: nat) < length [500000, 1550000 :: uintmax]
   \<and> map rx_sample [(''eth0'', \<lambda>path. Scanned 500000), (''eth0'', \<lambda>path. Scanned 1550000)]
        = map Some [500000, 1550000]
   \<and> (rxbytes (start\<lparr>rxbytes := 7\<rparr>) # [500000, 1550000]) ! 1 \<noteq> 0
   \<and> (\<exists>outs s'. ticks (rx_call 1000)
                    [(''eth0'', \<lambda>path. Scanned 500000), (''eth0'', \<lambda>path. Scanned 1550000)]
                    (start\<lparr>rxbytes := 7\<rparr>) = Inr (outs, s')
         \<and> length outs = length [500000, 1550000 :: uintmax] \<and> outs ! 1 = Some \<lparr>numeral_text = ''1.0'', unit_level = 2\<rparr>)
   \<and> map tx_sample [(''eth0'', \<lambda>path. Scanned 500000), (''eth0'', \<lambda>path. Scanned 1550000)]
        = map Some [500000, 1550000]
   \<and> (txbytes (start\<lparr>rxbytes := 7\<rparr>) # [500000, 1550000]) ! 1 \<noteq> 0
   \<and> (\<exists>outs s'. ticks (tx_call 1000)
                    [(''eth0'', \<lambda>path. Scanned 500000), (''eth0'', \<lambda>path. Scanned 1550000)]
                    (start\<lparr>rxbytes := 7\<rparr>) = Inr (outs, s')
         \<and> length outs = length [500000, 1550000 :: uintmax]
         \<and> outs ! 1 = Some \<lparr>numeral_text = ''1.0'', unit_level = 2\<rparr>)
   \<and> (500000 :: uintmax) \<le> 1550000
   \<and> unat ((1550000 - 500000 :: uintmax) * 1000 div ucast (1000 :: 32 word)) = 1050000"
proof -
  note t = rate_of_successful_reads [where interval = 1000 and k = 1
      and cs = "[500000, 1550000]"
      and es = "[(''eth0'', \<lambda>path. Scanned 500000), (''eth0'', \<lambda>path. Scanned 1550000)]"
      and s = "start\<lparr>rxbytes := 7\<rparr>" and p = 500000 and c = 1550000]
  have h: "map rx_sample [(''eth0'', \<lambda>path. Scanned 500000), (''eth0'', \<lambda>path. Scanned 1550000)]
        = map Some [500000, 1550000]"
    by (simp add: rx_sample_def sample_counter_def counter_path_def rx_path_def PATH_MAX_def)
  have h': "map tx_sample [(''eth0'', \<lambda>path. Scanned 500000), (''eth0'', \<lambda>path. Scanned 1550000)]
        = map Some [500000, 1550000]"
    by (simp add: tx_sample_def sample_counter_def counter_path_def tx_path_def PATH_MAX_def)
  from t h h' show ?thesis
    by (simp add: fmt_human_example)
qed

subsection \<open>The unset sentinel\<close>

text \<open>
  C2. A call that finds 0 (the unset sentinel) in the remembered previous sample returns
  \<open>NULL\<close> and does not fault, whatever the counter read gives and so also when it
  succeeds: for \<open>netspeed_rx\<close> and \<open>netspeed_tx\<close>, on Linux and on the BSDs. In
  particular, after the start of the process (statics zero) and any number of failed
  reads, the next call, and so the first successful read, yields no rate.
\<close>

theorem unset_previous_returns_null:
  "(rxbytes s = 0 \<longrightarrow> (\<exists>s'. netspeed_rx interval fs i s = Inr (None, s')))
   \<and> (txbytes s = 0 \<longrightarrow> (\<exists>s'. netspeed_tx interval fs i s = Inr (None, s')))
   \<and> (rxbytes s = 0 \<longrightarrow> (\<exists>s'. netspeed_rx_bsd interval g i s = Inr (None, s')))
   \<and> (txbytes s = 0 \<longrightarrow> (\<exists>s'. netspeed_tx_bsd interval g i s = Inr (None, s')))
   \<and> ((\<forall>e \<in> set es. rx_sample e = None) \<longrightarrow>
        (\<exists>s'. ticks (rx_call interval) (es @ [e]) start
                = Inr (replicate (length es) None @ [None], s')))
   \<and> ((\<forall>e \<in> set es. tx_sample e = None) \<longrightarrow>
        (\<exists>s'. ticks (tx_call interval) (es @ [e]) start
                = Inr (replicate (length es) None @ [None], s')))"
  by (intro conjI impI
      netspeed_rx_unset netspeed_tx_unset netspeed_rx_bsd_unset netspeed_tx_bsd_unset
      ticks_rx_unset_last ticks_tx_unset_last)
    (simp_all add: start_def)

theorem unset_previous_returns_null_witness:
  "rxbytes start = 0 \<and> txbytes start = 0
   \<and> (\<exists>s'. netspeed_rx 0 (\<lambda>path. Scanned 500000) ''eth0'' start = Inr (None, s'))
   \<and> (\<exists>s'. netspeed_tx 0 (\<lambda>path. Scanned 500000) ''eth0'' start = Inr (None, s'))
   \<and> (\<exists>s'. netspeed_rx_bsd 0 None ''eth0'' start = Inr (None, s'))
   \<and> (\<exists>s'. netspeed_tx_bsd 0 None ''eth0'' start = Inr (None, s'))
   \<and> rx_sample (''eth0'', \<lambda>path. Unreadable) = None
   \<and> tx_sample (''eth0'', \<lambda>path. Unreadable) = None
   \<and> (\<exists>s'. ticks (rx_call 0) ([(''eth0'', \<lambda>path. Unreadable)] @ [(''eth0'', \<lambda>path. Scanned 500000)])
             start = Inr (replicate (length [(''eth0'', \<lambda>path. Unreadable)]) None @ [None], s'))
   \<and> (\<exists>s'. ticks (tx_call 0) ([(''eth0'', \<lambda>path. Unreadable)] @ [(''eth0'', \<lambda>path. Scanned 500000)])
             start = Inr (replicate (length [(''eth0'', \<lambda>path. Unreadable)]) None @ [None], s'))"
proof -
  have z: "rxbytes start = 0" "txbytes start = 0"
    by (simp_all add: start_def)
  have f: "rx_sample (''eth0'', \<lambda>path. Unreadable) = None"
    "tx_sample (''eth0'', \<lambda>path. Unreadable) = None"
    by (simp_all add: rx_sample_def tx_sample_def sample_counter_def)
  note t = unset_previous_returns_null [where s = start and interval = 0
      and fs = "\<lambda>path. Scanned 500000" and i = "''eth0''" and g = None
      and es = "[(''eth0'', \<lambda>path. Unreadable)]" and e = "(''eth0'', \<lambda>path. Scanned 500000)"]
  from z f t show ?thesis by simp
qed

subsection \<open>One remembered sample for each direction\<close>

text \<open>
  C3, as the spec states it, fails. The claim: the previous sample is kept for each pair
  of an interface and a direction, so that a call's difference is taken against the
  sample recorded for the same interface. The code has one static variable in
  \<open>netspeed_rx\<close> and one in \<open>netspeed_tx\<close>, whatever the interface. Below, the status bar
  asks for the receive rate of eth0 (counter 1000) and then of wlan0 (counter 5000): the
  second call is the first ever for wlan0 and would be unavailable under the claim
  (\<open>per_interface\<close>), but the code returns the rate of 5000 - 1000 bytes in one second,
  3.9 at unit level 1.
\<close>

theorem sample_per_interface_counterexample:
  "ticks (netspeed_call 1000)
     [(Receive, ''eth0'', \<lambda>path. if path = rx_path ''eth0'' then Scanned 1000 else Scanned 5000),
      (Receive, ''wlan0'', \<lambda>path. if path = rx_path ''eth0'' then Scanned 1000 else Scanned 5000)]
     start
     = Inr ([None, Some \<lparr>numeral_text = ''3.9'', unit_level = 1\<rparr>],
            \<lparr>rxbytes = 5000, txbytes = 0,
             reads = [Sysfs_read (rx_path ''eth0''), Sysfs_read (rx_path ''wlan0'')]\<rparr>)
   \<and> per_interface 1000
     [(Receive, ''eth0'', \<lambda>path. if path = rx_path ''eth0'' then Scanned 1000 else Scanned 5000),
      (Receive, ''wlan0'', \<lambda>path. if path = rx_path ''eth0'' then Scanned 1000 else Scanned 5000)]
     (\<lambda>k. 0)
     = [None, None]"
  by (simp add: netspeed_call_def netspeed_rx_def esnprintf_def PATH_MAX_def pscanf_def
      rx_path_def start_def rate_def sample_counter_def counter_path_def compute_rate_def
      fmt_human_4000)

text \<open>
  C3, amended. The previous sample is kept for each direction only. For every sequence
  of calls of \<open>netspeed_rx\<close> and \<open>netspeed_tx\<close>, in any order and with any interface
  names, whether the reads succeed or fail, the results are those of \<open>per_direction\<close>: a
  successful call's difference is taken against the sample that the latest successful
  call of the same direction recorded, also when that call read another interface, and a
  call of one direction never changes the sample of the other.
\<close>

theorem sample_per_direction:
  assumes "interval \<noteq> 0"
  shows "\<exists>s'. ticks (netspeed_call interval) es s
                = Inr (per_direction interval es (previous s), s')"
  using assms by (rule ticks_per_direction)

theorem sample_per_direction_witness:
  "(1000 :: 32 word) \<noteq> 0
   \<and> (\<exists>s'. ticks (netspeed_call 1000)
     [(Receive, ''eth0'', \<lambda>path. if path = rx_path ''eth0'' then Scanned 1000 else Scanned 5000),
      (Receive, ''wlan0'', \<lambda>path. if path = rx_path ''eth0'' then Scanned 1000 else Scanned 5000)]
     start
     = Inr ([None, Some \<lparr>numeral_text = ''3.9'', unit_level = 1\<rparr>], s'))"
proof -
  have n: "(1000 :: 32 word) \<noteq> 0"
    by simp
  have "per_direction 1000
     [(Receive, ''eth0'', \<lambda>path. if path = rx_path ''eth0'' then Scanned 1000 else Scanned 5000),
      (Receive, ''wlan0'', \<lambda>path. if path = rx_path ''eth0'' then Scanned 1000 else Scanned 5000)]
     (previous start)
     = [None, Some \<lparr>numeral_text = ''3.9'', unit_level = 1\<rparr>]"
    by (simp add: PATH_MAX_def rx_path_def start_def sample_counter_def counter_path_def
        compute_rate_def previous_def fmt_human_4000)
  with sample_per_direction [OF n, of
     "[(Receive, ''eth0'', \<lambda>path. if path = rx_path ''eth0'' then Scanned 1000 else Scanned 5000),
      (Receive, ''wlan0'', \<lambda>path. if path = rx_path ''eth0'' then Scanned 1000 else Scanned 5000)]"
     start] n
  show ?thesis
    by (simp only: simp_thms)
qed

subsection \<open>Failed reads\<close>

text \<open>
  C4 asks that a failed counter read leave the remembered sample unchanged, so that a
  later successful read is rated against the last good value. The Linux functions do so
  (\<open>netspeed_rx_failed\<close>, \<open>netspeed_tx_failed\<close>), and so do the BSD functions when
  \<open>getifaddrs\<close> fails. The BSD functions do not when the interface is not in the list:
  they have set the static variable to 0 before the loop and return with it. Below, em0
  is remembered with 500000 bytes and is missing from one answer of \<open>getifaddrs\<close>: the
  sample becomes 0, and the next call, which reads 1550000, returns \<open>NULL\<close> where the
  claim expects the rate against 500000. The last two parts are the same failure on
  Linux and a failing \<open>getifaddrs\<close>, which keep the sample.
\<close>

theorem bsd_missing_interface_resets_sample:
  "ticks (\<lambda>g. netspeed_rx_bsd 1000 g ''em0'')
     [Some [\<lparr>ifa_name = ''lo0'', ifa_data = Some \<lparr>ifi_ibytes = 7, ifi_obytes = 7\<rparr>\<rparr>],
      Some [\<lparr>ifa_name = ''em0'', ifa_data = Some \<lparr>ifi_ibytes = 1550000, ifi_obytes = 9\<rparr>\<rparr>]]
     \<lparr>rxbytes = 500000, txbytes = 0, reads = []\<rparr>
   = Inr ([None, None],
          \<lparr>rxbytes = 1550000, txbytes = 0, reads = [Getifaddrs_read, Getifaddrs_read]\<rparr>)
   \<and> netspeed_rx_bsd 1000
     (Some [\<lparr>ifa_name = ''lo0'', ifa_data = Some \<lparr>ifi_ibytes = 7, ifi_obytes = 7\<rparr>\<rparr>]) ''em0''
     \<lparr>rxbytes = 500000, txbytes = 0, reads = []\<rparr>
   = Inr (None, \<lparr>rxbytes = 0, txbytes = 0, reads = [Getifaddrs_read]\<rparr>)
   \<and> netspeed_tx_bsd 1000
     (Some [\<lparr>ifa_name = ''lo0'', ifa_data = Some \<lparr>ifi_ibytes = 7, ifi_obytes = 7\<rparr>\<rparr>]) ''em0''
     \<lparr>rxbytes = 0, txbytes = 500000, reads = []\<rparr>
   = Inr (None, \<lparr>rxbytes = 0, txbytes = 0, reads = [Getifaddrs_read]\<rparr>)
   \<and> netspeed_rx 1000 (\<lambda>path. Unreadable) ''em0'' \<lparr>rxbytes = 500000, txbytes = 0, reads = []\<rparr>
   = Inr (None, \<lparr>rxbytes = 500000, txbytes = 0, reads = [Sysfs_read (rx_path ''em0'')]\<rparr>)
   \<and> netspeed_rx_bsd 1000 None ''em0'' \<lparr>rxbytes = 500000, txbytes = 0, reads = []\<rparr>
   = Inr (None, \<lparr>rxbytes = 500000, txbytes = 0, reads = [Getifaddrs_read]\<rparr>)"
  by (simp add: netspeed_rx_bsd_def netspeed_tx_bsd_def netspeed_rx_def esnprintf_def
      PATH_MAX_def pscanf_def rx_path_def)

subsection \<open>The state machine of the sampler\<close>

text \<open>
  C5, as the spec states it, fails. The claim: the state goes from \<open>NoSampleYet\<close> to
  \<open>HaveSample\<close> at the first successful read and never goes back. The state is read off
  the remembered value, 0 being \<open>NoSampleYet\<close>. A successful read of the counter value 0
  stores 0: from \<open>HaveSample\<close> (remembered value 5) the call returns a rate and the state
  is \<open>NoSampleYet\<close> again, and from the start the first successful read, of 0, leaves the
  state \<open>NoSampleYet\<close>.
\<close>

theorem state_machine_counterexample:
  "state_of (previous \<lparr>rxbytes = 5, txbytes = 0, reads = []\<rparr> Receive) = HaveSample
   \<and> sample_counter (\<lambda>path. Scanned 0) ''eth0'' Receive = Some 0
   \<and> netspeed_call 1000 (Receive, ''eth0'', \<lambda>path. Scanned 0) \<lparr>rxbytes = 5, txbytes = 0, reads = []\<rparr>
       = Inr (Some (fmt_human 18446744073709546 1024),
              \<lparr>rxbytes = 0, txbytes = 0, reads = [Sysfs_read (rx_path ''eth0'')]\<rparr>)
   \<and> state_of (previous \<lparr>rxbytes = 0, txbytes = 0, reads = [Sysfs_read (rx_path ''eth0'')]\<rparr> Receive)
       = NoSampleYet
   \<and> netspeed_call 1000 (Receive, ''eth0'', \<lambda>path. Scanned 0) start
       = Inr (None, \<lparr>rxbytes = 0, txbytes = 0, reads = [Sysfs_read (rx_path ''eth0'')]\<rparr>)"
  by (simp add: netspeed_call_def netspeed_rx_def esnprintf_def PATH_MAX_def pscanf_def
      rx_path_def start_def rate_def sample_counter_def counter_path_def state_of_def
      previous_def)

text \<open>
  C5, amended. As long as no successful read returns the counter value 0: after any
  sequence of calls of \<open>netspeed_rx\<close> and \<open>netspeed_tx\<close> on Linux, the state of a
  direction is \<open>HaveSample\<close> exactly when it was \<open>HaveSample\<close> before or one of the calls
  of that direction read its counter successfully. So the state becomes \<open>HaveSample\<close> at
  the first successful read and stays there, and a failed read never changes it. On the
  BSDs a successful read of a nonzero value gives \<open>HaveSample\<close>, and a failing
  \<open>getifaddrs\<close> leaves the remembered value as it was.
\<close>

theorem state_machine_nonzero_reads:
  assumes "interval \<noteq> 0"
  shows
    "((\<forall>e \<in> set es. sample_counter (snd (snd e)) (fst (snd e)) (fst e) \<noteq> Some 0) \<longrightarrow>
        (\<exists>outs s'. ticks (netspeed_call interval) es s = Inr (outs, s')
           \<and> (\<forall>d. state_of (previous s' d) =
                 (if state_of (previous s d) = HaveSample
                     \<or> (\<exists>e \<in> set es. fst e = d
                           \<and> sample_counter (snd (snd e)) (fst (snd e)) d \<noteq> None)
                  then HaveSample else NoSampleYet))))
     \<and> (sample_counter_bsd g i Receive = Some c \<and> c \<noteq> 0 \<longrightarrow>
          (\<exists>r s'. netspeed_rx_bsd interval g i s = Inr (r, s')
             \<and> state_of (rxbytes s') = HaveSample))
     \<and> (sample_counter_bsd g i Transmit = Some c \<and> c \<noteq> 0 \<longrightarrow>
          (\<exists>r s'. netspeed_tx_bsd interval g i s = Inr (r, s')
             \<and> state_of (txbytes s') = HaveSample))
     \<and> (\<exists>s'. netspeed_rx_bsd interval None i s = Inr (None, s') \<and> rxbytes s' = rxbytes s)
     \<and> (\<exists>s'. netspeed_tx_bsd interval None i s = Inr (None, s') \<and> txbytes s' = txbytes s)"
proof (intro conjI impI)
  assume "\<forall>e \<in> set es. sample_counter (snd (snd e)) (fst (snd e)) (fst e) \<noteq> Some 0"
  with assms show "\<exists>outs s'. ticks (netspeed_call interval) es s = Inr (outs, s')
           \<and> (\<forall>d. state_of (previous s' d) =
                 (if state_of (previous s d) = HaveSample
                     \<or> (\<exists>e \<in> set es. fst e = d
                           \<and> sample_counter (snd (snd e)) (fst (snd e)) d \<noteq> None)
                  then HaveSample else NoSampleYet))"
    by (rule ticks_state)
next
  assume "sample_counter_bsd g i Receive = Some c \<and> c \<noteq> 0"
  with assms show "\<exists>r s'. netspeed_rx_bsd interval g i s = Inr (r, s')
      \<and> state_of (rxbytes s') = HaveSample"
    by (simp add: netspeed_rx_bsd_result state_of_def)
next
  assume "sample_counter_bsd g i Transmit = Some c \<and> c \<noteq> 0"
  with assms show "\<exists>r s'. netspeed_tx_bsd interval g i s = Inr (r, s')
      \<and> state_of (txbytes s') = HaveSample"
    by (simp add: netspeed_tx_bsd_result state_of_def)
next
  show "\<exists>s'. netspeed_rx_bsd interval None i s = Inr (None, s') \<and> rxbytes s' = rxbytes s"
    by (simp add: netspeed_rx_bsd_result sample_counter_bsd_def)
next
  show "\<exists>s'. netspeed_tx_bsd interval None i s = Inr (None, s') \<and> txbytes s' = txbytes s"
    by (simp add: netspeed_tx_bsd_result sample_counter_bsd_def)
qed

theorem state_machine_nonzero_reads_witness:
  "(1000 :: 32 word) \<noteq> 0
   \<and> sample_counter (\<lambda>path. Unreadable) ''eth0'' Receive = None
   \<and> sample_counter (\<lambda>path. Scanned 500000) ''eth0'' Receive = Some 500000
   \<and> (\<exists>outs s'. ticks (netspeed_call 1000)
         [(Receive, ''eth0'', \<lambda>path. Unreadable), (Receive, ''eth0'', \<lambda>path. Scanned 500000),
          (Receive, ''eth0'', \<lambda>path. Unreadable)] start = Inr (outs, s')
        \<and> state_of (previous s' Receive) = HaveSample
        \<and> state_of (previous s' Transmit) = NoSampleYet)
   \<and> sample_counter_bsd
        (Some [\<lparr>ifa_name = ''em0'', ifa_data = Some \<lparr>ifi_ibytes = 1550000, ifi_obytes = 9\<rparr>\<rparr>])
        ''em0'' Receive = Some 1550000
   \<and> (\<exists>r s'. netspeed_rx_bsd 1000
         (Some [\<lparr>ifa_name = ''em0'', ifa_data = Some \<lparr>ifi_ibytes = 1550000, ifi_obytes = 9\<rparr>\<rparr>])
         ''em0'' start = Inr (r, s')
        \<and> state_of (rxbytes s') = HaveSample)
   \<and> sample_counter_bsd
        (Some [\<lparr>ifa_name = ''em0'', ifa_data = Some \<lparr>ifi_ibytes = 1550000, ifi_obytes = 9\<rparr>\<rparr>])
        ''em0'' Transmit = Some 9
   \<and> (\<exists>r s'. netspeed_tx_bsd 1000
         (Some [\<lparr>ifa_name = ''em0'', ifa_data = Some \<lparr>ifi_ibytes = 1550000, ifi_obytes = 9\<rparr>\<rparr>])
         ''em0'' start = Inr (r, s')
        \<and> state_of (txbytes s') = HaveSample)
   \<and> (\<exists>s'. netspeed_rx_bsd 1000 None ''em0'' start = Inr (None, s') \<and> rxbytes s' = rxbytes start)
   \<and> (\<exists>s'. netspeed_tx_bsd 1000 None ''em0'' start = Inr (None, s') \<and> txbytes s' = txbytes start)"
proof -
  have n: "(1000 :: 32 word) \<noteq> 0"
    by simp
  have a: "sample_counter (\<lambda>path. Unreadable) ''eth0'' Receive = None"
    "sample_counter (\<lambda>path. Scanned 500000) ''eth0'' Receive = Some 500000"
    by (simp_all add: sample_counter_def counter_path_def rx_path_def PATH_MAX_def)
  have b: "sample_counter_bsd
        (Some [\<lparr>ifa_name = ''em0'', ifa_data = Some \<lparr>ifi_ibytes = 1550000, ifi_obytes = 9\<rparr>\<rparr>])
        ''em0'' Receive = Some 1550000"
    by (simp add: sample_counter_bsd_def named_def)
  note t = state_machine_nonzero_reads [OF n, where s = start and i = "''em0''"
      and c = 1550000
      and g = "Some [\<lparr>ifa_name = ''em0'', ifa_data = Some \<lparr>ifi_ibytes = 1550000, ifi_obytes = 9\<rparr>\<rparr>]"
      and es = "[(Receive, ''eth0'', \<lambda>path. Unreadable), (Receive, ''eth0'', \<lambda>path. Scanned 500000),
          (Receive, ''eth0'', \<lambda>path. Unreadable)]"]
  from t a obtain outs s' where o: "ticks (netspeed_call 1000)
         [(Receive, ''eth0'', \<lambda>path. Unreadable), (Receive, ''eth0'', \<lambda>path. Scanned 500000),
          (Receive, ''eth0'', \<lambda>path. Unreadable)] start = Inr (outs, s')"
    and st: "\<forall>d. state_of (previous s' d) =
                 (if state_of (previous start d) = HaveSample
                     \<or> (\<exists>e \<in> set [(Receive, ''eth0'', \<lambda>path. Unreadable),
                                    (Receive, ''eth0'', \<lambda>path. Scanned 500000),
                                    (Receive, ''eth0'', \<lambda>path. Unreadable)]. fst e = d
                           \<and> sample_counter (snd (snd e)) (fst (snd e)) d \<noteq> None)
                  then HaveSample else NoSampleYet)"
    by (auto simp del: ticks.simps)
  from st [rule_format, of Receive] a have r: "state_of (previous s' Receive) = HaveSample"
    by simp
  from st [rule_format, of Transmit] have x: "state_of (previous s' Transmit) = NoSampleYet"
    by (simp add: previous_def start_def state_of_def)
  from t b have "\<exists>r s'. netspeed_rx_bsd 1000
         (Some [\<lparr>ifa_name = ''em0'', ifa_data = Some \<lparr>ifi_ibytes = 1550000, ifi_obytes = 9\<rparr>\<rparr>])
         ''em0'' start = Inr (r, s')
        \<and> state_of (rxbytes s') = HaveSample"
    by simp
  then have y: "\<exists>r s'. netspeed_rx_bsd 1000
         (Some [\<lparr>ifa_name = ''em0'', ifa_data = Some \<lparr>ifi_ibytes = 1550000, ifi_obytes = 9\<rparr>\<rparr>])
         ''em0'' start = Inr (r, s')
        \<and> state_of (rxbytes s') = HaveSample" .
  have b': "sample_counter_bsd
        (Some [\<lparr>ifa_name = ''em0'', ifa_data = Some \<lparr>ifi_ibytes = 1550000, ifi_obytes = 9\<rparr>\<rparr>])
        ''em0'' Transmit = Some 9"
    by (simp add: sample_counter_bsd_def named_def)
  note t' = state_machine_nonzero_reads [OF n, where s = start and i = "''em0''" and c = 9
      and g = "Some [\<lparr>ifa_name = ''em0'', ifa_data = Some \<lparr>ifi_ibytes = 1550000, ifi_obytes = 9\<rparr>\<rparr>]"
      and es = "[]"]
  from t' b' have z: "\<exists>r s'. netspeed_tx_bsd 1000
         (Some [\<lparr>ifa_name = ''em0'', ifa_data = Some \<lparr>ifi_ibytes = 1550000, ifi_obytes = 9\<rparr>\<rparr>])
         ''em0'' start = Inr (r, s')
        \<and> state_of (txbytes s') = HaveSample"
    by simp
  from t have e: "(\<exists>s'. netspeed_rx_bsd 1000 None ''em0'' start = Inr (None, s')
        \<and> rxbytes s' = rxbytes start)
      \<and> (\<exists>s'. netspeed_tx_bsd 1000 None ''em0'' start = Inr (None, s')
        \<and> txbytes s' = txbytes start)"
    by blast
  from o r x have q: "\<exists>outs s'. ticks (netspeed_call 1000)
         [(Receive, ''eth0'', \<lambda>path. Unreadable), (Receive, ''eth0'', \<lambda>path. Scanned 500000),
          (Receive, ''eth0'', \<lambda>path. Unreadable)] start = Inr (outs, s')
        \<and> state_of (previous s' Receive) = HaveSample
        \<and> state_of (previous s' Transmit) = NoSampleYet"
    by blast
  from n a q b y b' z e show ?thesis
    by (intro conjI) (simp_all only: simp_thms)
qed

subsection \<open>When a call returns no value\<close>

text \<open>
  C6. With a nonzero interval (the spec's interval is positive), every call of
  \<open>netspeed_rx\<close> and \<open>netspeed_tx\<close>, on Linux and on the BSDs, returns without a fault,
  and it returns \<open>NULL\<close> exactly when the counter cannot be sampled (the path does not
  fit, the file or the interface list cannot be read, the text cannot be parsed, the
  interface is missing) or the remembered previous sample is the unset sentinel 0. A call
  hands at most one counter read to the operating system: nothing is retried.
\<close>

theorem null_exactly_when_unavailable:
  assumes "interval \<noteq> 0"
  shows
    "(\<exists>r s'. netspeed_rx interval fs i s = Inr (r, s')
        \<and> (r = None \<longleftrightarrow> sample_counter fs i Receive = None \<or> rxbytes s = 0)
        \<and> length (reads s') \<le> Suc (length (reads s)))
     \<and> (\<exists>r s'. netspeed_tx interval fs i s = Inr (r, s')
        \<and> (r = None \<longleftrightarrow> sample_counter fs i Transmit = None \<or> txbytes s = 0)
        \<and> length (reads s') \<le> Suc (length (reads s)))
     \<and> (\<exists>r s'. netspeed_rx_bsd interval g i s = Inr (r, s')
        \<and> (r = None \<longleftrightarrow> sample_counter_bsd g i Receive = None \<or> rxbytes s = 0)
        \<and> length (reads s') \<le> Suc (length (reads s)))
     \<and> (\<exists>r s'. netspeed_tx_bsd interval g i s = Inr (r, s')
        \<and> (r = None \<longleftrightarrow> sample_counter_bsd g i Transmit = None \<or> txbytes s = 0)
        \<and> length (reads s') \<le> Suc (length (reads s)))"
  using assms
  by (intro conjI netspeed_rx_null_iff netspeed_tx_null_iff netspeed_rx_bsd_null_iff
      netspeed_tx_bsd_null_iff)

theorem null_exactly_when_unavailable_witness:
  "(1000 :: 32 word) \<noteq> 0
   \<and> (\<exists>r s'. netspeed_rx 1000 (\<lambda>path. Scanned 1550000) ''eth0'' (start\<lparr>rxbytes := 500000\<rparr>)
                 = Inr (r, s')
        \<and> r \<noteq> None \<and> length (reads s') \<le> Suc 0)
   \<and> (\<exists>r s'. netspeed_tx 1000 (\<lambda>path. Unparsable) ''eth0'' (start\<lparr>txbytes := 500000\<rparr>)
                 = Inr (r, s')
        \<and> r = None \<and> length (reads s') \<le> Suc 0)
   \<and> (\<exists>r s'. netspeed_rx_bsd 1000 (Some []) ''em0'' (start\<lparr>rxbytes := 500000\<rparr>) = Inr (r, s')
        \<and> r = None \<and> length (reads s') \<le> Suc 0)
   \<and> (\<exists>r s'. netspeed_tx_bsd 1000
         (Some [\<lparr>ifa_name = ''em0'', ifa_data = Some \<lparr>ifi_ibytes = 1550000, ifi_obytes = 9\<rparr>\<rparr>])
         ''em0'' (start\<lparr>txbytes := 5\<rparr>) = Inr (r, s')
        \<and> r \<noteq> None \<and> length (reads s') \<le> Suc 0)"
proof -
  have n: "(1000 :: 32 word) \<noteq> 0"
    by simp
  have a: "sample_counter (\<lambda>path. Scanned 1550000) ''eth0'' Receive = Some 1550000"
    "sample_counter (\<lambda>path. Unparsable) ''eth0'' Transmit = None"
    by (simp_all add: sample_counter_def counter_path_def rx_path_def tx_path_def PATH_MAX_def)
  have b: "sample_counter_bsd (Some []) ''em0'' Receive = None"
    "sample_counter_bsd
       (Some [\<lparr>ifa_name = ''em0'', ifa_data = Some \<lparr>ifi_ibytes = 1550000, ifi_obytes = 9\<rparr>\<rparr>])
       ''em0'' Transmit = Some 9"
    by (simp_all add: sample_counter_bsd_def named_def)
  have r: "reads start = []"
    by (simp add: start_def)
  note t1 = null_exactly_when_unavailable [OF n, where fs = "\<lambda>path. Scanned 1550000"
      and i = "''eth0''" and s = "start\<lparr>rxbytes := 500000\<rparr>", THEN conjunct1]
  note t2 = null_exactly_when_unavailable [OF n, where fs = "\<lambda>path. Unparsable"
      and i = "''eth0''" and s = "start\<lparr>txbytes := 500000\<rparr>", THEN conjunct2, THEN conjunct1]
  note t3 = null_exactly_when_unavailable [OF n, where g = "Some []"
      and i = "''em0''" and s = "start\<lparr>rxbytes := 500000\<rparr>",
      THEN conjunct2, THEN conjunct2, THEN conjunct1]
  note t4 = null_exactly_when_unavailable [OF n, where
      g = "Some [\<lparr>ifa_name = ''em0'', ifa_data = Some \<lparr>ifi_ibytes = 1550000, ifi_obytes = 9\<rparr>\<rparr>]"
      and i = "''em0''" and s = "start\<lparr>txbytes := 5\<rparr>",
      THEN conjunct2, THEN conjunct2, THEN conjunct2]
  from t1 a r have c1: "\<exists>r s'. netspeed_rx 1000 (\<lambda>path. Scanned 1550000) ''eth0''
        (start\<lparr>rxbytes := 500000\<rparr>) = Inr (r, s') \<and> r \<noteq> None \<and> length (reads s') \<le> Suc 0"
    by simp
  from t2 a r have c2: "\<exists>r s'. netspeed_tx 1000 (\<lambda>path. Unparsable) ''eth0''
        (start\<lparr>txbytes := 500000\<rparr>) = Inr (r, s') \<and> r = None \<and> length (reads s') \<le> Suc 0"
    by simp
  from t3 b r have c3: "\<exists>r s'. netspeed_rx_bsd 1000 (Some []) ''em0''
        (start\<lparr>rxbytes := 500000\<rparr>) = Inr (r, s') \<and> r = None \<and> length (reads s') \<le> Suc 0"
    by simp
  from t4 b r have c4: "\<exists>r s'. netspeed_tx_bsd 1000
         (Some [\<lparr>ifa_name = ''em0'', ifa_data = Some \<lparr>ifi_ibytes = 1550000, ifi_obytes = 9\<rparr>\<rparr>])
         ''em0'' (start\<lparr>txbytes := 5\<rparr>) = Inr (r, s') \<and> r \<noteq> None \<and> length (reads s') \<le> Suc 0"
    by simp
  from n c1 c2 c3 c4 show ?thesis
    by (intro conjI)
qed

subsection \<open>A counter that has gone down\<close>

text \<open>
  C7, as the spec states it, fails. The claim: when the current counter is smaller than
  the remembered one, the rate is \<open>((current - previous) mod 2 ^ w) * 1000 / interval\<close>,
  with only the difference reduced modulo \<open>2 ^ w\<close>. The code multiplies in \<open>uintmax_t\<close>
  too, and the product of a wrapped difference with 1000 wraps again. With the remembered
  counter 2, the current counter 1 and an interval of 1000 the code's rate is
  18446744073709550 (16.3 at unit level 5), and the claim's is 18446744073709551615 (15.9
  at unit level 6).
\<close>

theorem unwrapped_product_counterexample:
  "(1 :: uintmax) < 2
   \<and> netspeed_rx 1000 (\<lambda>path. Scanned 1) ''eth0'' \<lparr>rxbytes = 2, txbytes = 0, reads = []\<rparr>
       = Inr (Some \<lparr>numeral_text = ''16.3'', unit_level = 5\<rparr>,
              \<lparr>rxbytes = 1, txbytes = 0, reads = [Sysfs_read (rx_path ''eth0'')]\<rparr>)
   \<and> unat (rate 1 2 1000) = 18446744073709550
   \<and> ((1 - 2) mod 2 ^ 64) * 1000 div 1000 = (18446744073709551615 :: int)
   \<and> fmt_human (nat (((1 - 2) mod 2 ^ 64) * 1000 div 1000)) 1024
       = \<lparr>numeral_text = ''15.9'', unit_level = 6\<rparr>"
  by (simp add: netspeed_rx_def esnprintf_def PATH_MAX_def pscanf_def rx_path_def rate_def
      fmt_human_wrapped)

text \<open>
  C7, amended. When the current counter is smaller than the remembered one, the read
  succeeds and the interval is nonzero, the call returns a string and not \<open>NULL\<close>, with
  no special handling, and the rate is
  \<open>(((current - previous) mod 2 ^ 64) * 1000 mod 2 ^ 64) / interval\<close>: the difference
  wraps, and so does the product with 1000.
\<close>

theorem wrapped_rate:
  assumes "interval \<noteq> 0"
  shows
    "(sample_counter fs i Receive = Some c \<and> c < rxbytes s \<longrightarrow>
        (\<exists>s'. netspeed_rx interval fs i s =
           Inr (Some (fmt_human
                  (nat (((uint c - uint (rxbytes s)) mod 2 ^ 64 * 1000 mod 2 ^ 64)
                        div uint interval)) 1024), s')))
     \<and> (sample_counter fs i Transmit = Some c \<and> c < txbytes s \<longrightarrow>
        (\<exists>s'. netspeed_tx interval fs i s =
           Inr (Some (fmt_human
                  (nat (((uint c - uint (txbytes s)) mod 2 ^ 64 * 1000 mod 2 ^ 64)
                        div uint interval)) 1024), s')))"
proof (intro conjI impI)
  assume a: "sample_counter fs i Receive = Some c \<and> c < rxbytes s"
  then have "rxbytes s \<noteq> 0"
    by auto
  with a netspeed_rx_next [of fs i c s interval] assms
  have "netspeed_rx interval fs i s =
           Inr (Some (fmt_human (unat (rate c (rxbytes s) interval)) 1024),
                s\<lparr>rxbytes := c, reads := reads s @ [Sysfs_read (rx_path i)]\<rparr>)"
    by simp
  moreover have "unat (rate c (rxbytes s) interval)
      = nat (((uint c - uint (rxbytes s)) mod 2 ^ 64 * 1000 mod 2 ^ 64) div uint interval)"
    by (simp only: unat_eq_nat_uint rate_uint)
  ultimately show "\<exists>s'. netspeed_rx interval fs i s =
           Inr (Some (fmt_human
                  (nat (((uint c - uint (rxbytes s)) mod 2 ^ 64 * 1000 mod 2 ^ 64)
                        div uint interval)) 1024), s')"
    by simp
next
  assume a: "sample_counter fs i Transmit = Some c \<and> c < txbytes s"
  then have "txbytes s \<noteq> 0"
    by auto
  with a netspeed_tx_next [of fs i c s interval] assms
  have "netspeed_tx interval fs i s =
           Inr (Some (fmt_human (unat (rate c (txbytes s) interval)) 1024),
                s\<lparr>txbytes := c, reads := reads s @ [Sysfs_read (tx_path i)]\<rparr>)"
    by simp
  moreover have "unat (rate c (txbytes s) interval)
      = nat (((uint c - uint (txbytes s)) mod 2 ^ 64 * 1000 mod 2 ^ 64) div uint interval)"
    by (simp only: unat_eq_nat_uint rate_uint)
  ultimately show "\<exists>s'. netspeed_tx interval fs i s =
           Inr (Some (fmt_human
                  (nat (((uint c - uint (txbytes s)) mod 2 ^ 64 * 1000 mod 2 ^ 64)
                        div uint interval)) 1024), s')"
    by simp
qed

theorem wrapped_rate_witness:
  "(1000 :: 32 word) \<noteq> 0
   \<and> sample_counter (\<lambda>path. Scanned 1) ''eth0'' Receive = Some 1
   \<and> 1 < rxbytes \<lparr>rxbytes = 2, txbytes = 2, reads = []\<rparr>
   \<and> (\<exists>s'. netspeed_rx 1000 (\<lambda>path. Scanned 1) ''eth0'' \<lparr>rxbytes = 2, txbytes = 2, reads = []\<rparr>
        = Inr (Some \<lparr>numeral_text = ''16.3'', unit_level = 5\<rparr>, s'))
   \<and> sample_counter (\<lambda>path. Scanned 1) ''eth0'' Transmit = Some 1
   \<and> 1 < txbytes \<lparr>rxbytes = 2, txbytes = 2, reads = []\<rparr>
   \<and> (\<exists>s'. netspeed_tx 1000 (\<lambda>path. Scanned 1) ''eth0'' \<lparr>rxbytes = 2, txbytes = 2, reads = []\<rparr>
        = Inr (Some \<lparr>numeral_text = ''16.3'', unit_level = 5\<rparr>, s'))"
proof -
  have n: "(1000 :: 32 word) \<noteq> 0"
    by simp
  have a: "sample_counter (\<lambda>path. Scanned 1) ''eth0'' Receive = Some 1"
    "sample_counter (\<lambda>path. Scanned 1) ''eth0'' Transmit = Some 1"
    by (simp_all add: sample_counter_def counter_path_def rx_path_def tx_path_def PATH_MAX_def)
  have v: "nat (((uint (1 :: uintmax) - uint (2 :: uintmax)) mod 2 ^ 64 * 1000 mod 2 ^ 64)
                 div uint (1000 :: 32 word)) = 18446744073709550"
    by simp
  note t = wrapped_rate [OF n, where fs = "\<lambda>path. Scanned 1" and i = "''eth0''" and c = 1
      and s = "\<lparr>rxbytes = 2, txbytes = 2, reads = []\<rparr>"]
  from t a have "(\<exists>s'. netspeed_rx 1000 (\<lambda>path. Scanned 1) ''eth0''
          \<lparr>rxbytes = 2, txbytes = 2, reads = []\<rparr>
        = Inr (Some (fmt_human 18446744073709550 1024), s'))
     \<and> (\<exists>s'. netspeed_tx 1000 (\<lambda>path. Scanned 1) ''eth0''
          \<lparr>rxbytes = 2, txbytes = 2, reads = []\<rparr>
        = Inr (Some (fmt_human 18446744073709550 1024), s'))"
    by (simp add: v)
  with n a show ?thesis
    by (simp add: fmt_human_wrapped)
qed

subsection \<open>No active interface\<close>

text \<open>
  C8. When the discovery of the active interface returns no interface (\<open>run_command\<close>
  returns \<open>NULL\<close>), \<open>netspeed_rx_auto\<close> and \<open>netspeed_tx_auto\<close> return \<open>NULL\<close> and leave
  the statics as they were: the remembered samples are untouched, and the log of counter
  reads has not grown, so no counter read was attempted.
\<close>

theorem netspeed_auto_no_interface:
  assumes "netspeed_get_active_interface run_command = None"
  shows "netspeed_rx_auto interval run_command fs s = Inr (None, s)
       \<and> netspeed_tx_auto interval run_command fs s = Inr (None, s)"
  using assms by (simp add: netspeed_rx_auto_def netspeed_tx_auto_def)

theorem netspeed_auto_no_interface_witness:
  "netspeed_get_active_interface (\<lambda>cmd. None) = None
   \<and> netspeed_rx_auto 1000 (\<lambda>cmd. None) (\<lambda>path. Scanned 7) (start\<lparr>rxbytes := 5\<rparr>)
       = Inr (None, start\<lparr>rxbytes := 5\<rparr>)
   \<and> netspeed_tx_auto 1000 (\<lambda>cmd. None) (\<lambda>path. Scanned 7) (start\<lparr>rxbytes := 5\<rparr>)
       = Inr (None, start\<lparr>rxbytes := 5\<rparr>)"
proof -
  have h: "netspeed_get_active_interface (\<lambda>cmd. None) = None"
    by (simp add: netspeed_get_active_interface_def)
  show ?thesis
    using h netspeed_auto_no_interface [OF h, of 1000 "\<lambda>path. Scanned 7" "start\<lparr>rxbytes := 5\<rparr>"]
    by simp
qed

subsection \<open>fmt_human under unit scaling\<close>

text \<open>
  C9. For every rate \<open>x\<close> and base 1024: formatting \<open>1024 * x\<close> gives the same numeral
  as formatting \<open>x\<close>, one unit level higher when \<open>x\<close> is not 0 (the rate 0 stays at the
  lowest unit). The unit chosen is the one at which the magnitude \<open>x / 1024 ^ level\<close> is
  below the base, and so is the displayed magnitude (its tenths are below 10 * 1024); no
  lower unit has a magnitude below the base, and for a nonzero rate the magnitude is at
  least 1, so that the unit is the largest that does not push the magnitude below 1. The
  numeral is a nonempty run of decimal digits, a point and one decimal digit.
\<close>

theorem fmt_human_unit_scaling:
  "numeral_text (fmt_human (1024 * x) 1024) = numeral_text (fmt_human x 1024)
   \<and> (0 < x \<longrightarrow> unit_level (fmt_human (1024 * x) 1024) = Suc (unit_level (fmt_human x 1024)))
   \<and> x < 1024 * 1024 ^ unit_level (fmt_human x 1024)
   \<and> tenths 1024 (unit_level (fmt_human x 1024)) x < 10 * 1024
   \<and> (\<forall>j. x < 1024 * 1024 ^ j \<longrightarrow> unit_level (fmt_human x 1024) \<le> j)
   \<and> (0 < x \<longrightarrow> 1024 ^ unit_level (fmt_human x 1024) \<le> x)
   \<and> (\<exists>ds d. numeral_text (fmt_human x 1024) = ds @ ''.'' @ [d] \<and> ds \<noteq> []
         \<and> set ds \<subseteq> set ''0123456789'' \<and> d \<in> set ''0123456789'')"
proof -
  have b: "(2 :: nat) \<le> 1024"
    by simp
  have u: "unit_level (fmt_human n 1024) = prefix_index 1024 n" for n
    by (simp add: fmt_human_def)
  have t: "numeral_text (fmt_human n 1024) = numeral_of 1024 (prefix_index 1024 n) n" for n
    by (simp add: fmt_human_def)
  have "numeral_text (fmt_human (1024 * x) 1024) = numeral_text (fmt_human x 1024)"
    by (rule numeral_scaled)
  moreover have "0 < x \<longrightarrow> unit_level (fmt_human (1024 * x) 1024) = Suc (unit_level (fmt_human x 1024))"
    using prefix_index_scaled [of x] by (simp only: u) blast
  moreover have "x < 1024 * 1024 ^ unit_level (fmt_human x 1024)"
    using prefix_index_bounds [OF b, of x] by (simp only: u)
  moreover have "tenths 1024 (unit_level (fmt_human x 1024)) x < 10 * 1024"
    using tenths_below [OF b, of x] by (simp only: u)
  moreover have "\<forall>j. x < 1024 * 1024 ^ j \<longrightarrow> unit_level (fmt_human x 1024) \<le> j"
    using prefix_index_least [OF b, of x] by (simp only: u) blast
  moreover have "0 < x \<longrightarrow> 1024 ^ unit_level (fmt_human x 1024) \<le> x"
    using prefix_index_bounds [OF b, of x] by (simp only: u) blast
  moreover have "\<exists>ds d. numeral_text (fmt_human x 1024) = ds @ ''.'' @ [d] \<and> ds \<noteq> []
         \<and> set ds \<subseteq> set ''0123456789'' \<and> d \<in> set ''0123456789''"
    by (simp only: t numeral_of_shape)
  ultimately show ?thesis
    by (intro conjI)
qed

theorem fmt_human_unit_scaling_witness:
  "numeral_text (fmt_human (1024 * 1025) 1024) = numeral_text (fmt_human 1025 1024)
   \<and> (0 :: nat) < 1025
   \<and> unit_level (fmt_human (1024 * 1025) 1024) = Suc (unit_level (fmt_human 1025 1024))
   \<and> (1025 :: nat) < 1024 * 1024 ^ unit_level (fmt_human 1025 1024)
   \<and> (1025 :: nat) < 1024 * 1024 ^ 1
   \<and> unit_level (fmt_human 1025 1024) \<le> 1
   \<and> 1024 ^ unit_level (fmt_human 1025 1024) \<le> (1025 :: nat)
   \<and> fmt_human 1025 1024 = \<lparr>numeral_text = ''1.0'', unit_level = 1\<rparr>
   \<and> fmt_human (1024 * 1025) 1024 = \<lparr>numeral_text = ''1.0'', unit_level = 2\<rparr>"
proof -
  note t = fmt_human_unit_scaling [of 1025]
  have p: "(0 :: nat) < 1025" "(1025 :: nat) < 1024 * 1024 ^ 1"
    by simp_all
  from t have c1: "numeral_text (fmt_human (1024 * 1025) 1024) = numeral_text (fmt_human 1025 1024)"
    by (rule conjunct1)
  from t p(1) have c2: "unit_level (fmt_human (1024 * 1025) 1024) = Suc (unit_level (fmt_human 1025 1024))"
    by blast
  from t have c3: "(1025 :: nat) < 1024 * 1024 ^ unit_level (fmt_human 1025 1024)"
    by blast
  from t p(2) have c4: "unit_level (fmt_human 1025 1024) \<le> 1"
    by blast
  from t p(1) have c5: "1024 ^ unit_level (fmt_human 1025 1024) \<le> (1025 :: nat)"
    by blast
  have e: "fmt_human 1025 1024 = \<lparr>numeral_text = ''1.0'', unit_level = 1\<rparr>"
    "fmt_human (1024 * 1025) 1024 = \<lparr>numeral_text = ''1.0'', unit_level = 2\<rparr>"
    by (simp_all add: fmt_human_def numeral_of_def tenths_def prefix_index.simps show_nat.simps)
  from c1 p c2 c3 c4 c5 e show ?thesis
    by (intro conjI)
qed

subsection \<open>A counter that reads zero\<close>

text \<open>
  C10. A successful read of the counter value 0 cannot be told from the unset sentinel.
  After such a call of \<open>netspeed_rx\<close> (\<open>netspeed_tx\<close>) the remembered value is what it is
  at the start of the process, the state is \<open>NoSampleYet\<close>, whether it was so before or
  not, and the next call returns \<open>NULL\<close> whatever it reads, so also when its read succeeds
  and two successful samples in a row exist.
\<close>

theorem zero_counter_is_sentinel:
  assumes "interval \<noteq> 0"
  shows
    "(sample_counter fs i Receive = Some 0 \<longrightarrow>
        (\<exists>r s'. netspeed_rx interval fs i s = Inr (r, s')
           \<and> rxbytes s' = rxbytes start \<and> state_of (rxbytes s') = NoSampleYet
           \<and> (\<exists>s''. netspeed_rx interval fs' i' s' = Inr (None, s''))))
     \<and> (sample_counter fs i Transmit = Some 0 \<longrightarrow>
        (\<exists>r s'. netspeed_tx interval fs i s = Inr (r, s')
           \<and> txbytes s' = txbytes start \<and> state_of (txbytes s') = NoSampleYet
           \<and> (\<exists>s''. netspeed_tx interval fs' i' s' = Inr (None, s''))))"
proof (intro conjI impI)
  assume "sample_counter fs i Receive = Some 0"
  from netspeed_rx_stores [OF assms this, of s]
  obtain r s' where s': "netspeed_rx interval fs i s = Inr (r, s')" "rxbytes s' = 0"
    by blast
  from netspeed_rx_unset [OF s'(2), of interval fs' i']
  obtain s'' where "netspeed_rx interval fs' i' s' = Inr (None, s'')"
    by blast
  with s' show "\<exists>r s'. netspeed_rx interval fs i s = Inr (r, s')
           \<and> rxbytes s' = rxbytes start \<and> state_of (rxbytes s') = NoSampleYet
           \<and> (\<exists>s''. netspeed_rx interval fs' i' s' = Inr (None, s''))"
    by (auto simp: start_def state_of_def)
next
  assume "sample_counter fs i Transmit = Some 0"
  from netspeed_tx_stores [OF assms this, of s]
  obtain r s' where s': "netspeed_tx interval fs i s = Inr (r, s')" "txbytes s' = 0"
    by blast
  from netspeed_tx_unset [OF s'(2), of interval fs' i']
  obtain s'' where "netspeed_tx interval fs' i' s' = Inr (None, s'')"
    by blast
  with s' show "\<exists>r s'. netspeed_tx interval fs i s = Inr (r, s')
           \<and> txbytes s' = txbytes start \<and> state_of (txbytes s') = NoSampleYet
           \<and> (\<exists>s''. netspeed_tx interval fs' i' s' = Inr (None, s''))"
    by (auto simp: start_def state_of_def)
qed

theorem zero_counter_is_sentinel_witness:
  "(1000 :: 32 word) \<noteq> 0
   \<and> sample_counter (\<lambda>path. Scanned 0) ''eth0'' Receive = Some 0
   \<and> sample_counter (\<lambda>path. Scanned 0) ''eth0'' Transmit = Some 0
   \<and> sample_counter (\<lambda>path. Scanned 1550000) ''eth0'' Receive = Some 1550000
   \<and> sample_counter (\<lambda>path. Scanned 1550000) ''eth0'' Transmit = Some 1550000
   \<and> (\<exists>r s'. netspeed_rx 1000 (\<lambda>path. Scanned 0) ''eth0'' start = Inr (r, s')
        \<and> rxbytes s' = rxbytes start \<and> state_of (rxbytes s') = NoSampleYet
        \<and> (\<exists>s''. netspeed_rx 1000 (\<lambda>path. Scanned 1550000) ''eth0'' s' = Inr (None, s'')))
   \<and> (\<exists>r s'. netspeed_tx 1000 (\<lambda>path. Scanned 0) ''eth0'' start = Inr (r, s')
        \<and> txbytes s' = txbytes start \<and> state_of (txbytes s') = NoSampleYet
        \<and> (\<exists>s''. netspeed_tx 1000 (\<lambda>path. Scanned 1550000) ''eth0'' s' = Inr (None, s'')))"
proof -
  have n: "(1000 :: 32 word) \<noteq> 0"
    by simp
  have a: "sample_counter (\<lambda>path. Scanned 0) ''eth0'' Receive = Some 0"
    "sample_counter (\<lambda>path. Scanned 0) ''eth0'' Transmit = Some 0"
    "sample_counter (\<lambda>path. Scanned 1550000) ''eth0'' Receive = Some 1550000"
    "sample_counter (\<lambda>path. Scanned 1550000) ''eth0'' Transmit = Some 1550000"
    by (simp_all add: sample_counter_def counter_path_def rx_path_def tx_path_def PATH_MAX_def)
  note t = zero_counter_is_sentinel [OF n, where fs = "\<lambda>path. Scanned 0" and i = "''eth0''"
      and s = start and fs' = "\<lambda>path. Scanned 1550000" and i' = "''eth0''"]
  from t a(1,2) have "(\<exists>r s'. netspeed_rx 1000 (\<lambda>path. Scanned 0) ''eth0'' start = Inr (r, s')
        \<and> rxbytes s' = rxbytes start \<and> state_of (rxbytes s') = NoSampleYet
        \<and> (\<exists>s''. netspeed_rx 1000 (\<lambda>path. Scanned 1550000) ''eth0'' s' = Inr (None, s'')))
   \<and> (\<exists>r s'. netspeed_tx 1000 (\<lambda>path. Scanned 0) ''eth0'' start = Inr (r, s')
        \<and> txbytes s' = txbytes start \<and> state_of (txbytes s') = NoSampleYet
        \<and> (\<exists>s''. netspeed_tx 1000 (\<lambda>path. Scanned 1550000) ''eth0'' s' = Inr (None, s'')))"
    by (simp only: simp_thms)
  with n a show ?thesis
    by (simp only: simp_thms)
qed

end
